theory Spec2Isabelle
  imports Main "HOL-Library.Word" "HOL-Library.Signed_Division"
begin

unbundle bit_operations_syntax

text \<open>
  The scheduling of block updates of i3blocks, \<^verbatim>\<open>sched.c\<close>: the sleep duration
  (\<^verbatim>\<open>longest_sleep\<close>), the update decision (\<^verbatim>\<open>need_update\<close>), the pass over the blocks
  (\<^verbatim>\<open>update_status_line\<close>), the clicks (\<^verbatim>\<open>parse_click\<close>, \<^verbatim>\<open>handle_click\<close>) and the
  loop (\<^verbatim>\<open>sched_start\<close>), each as a function on an explicit state, followed by the
  properties proved of them.
\<close>

section \<open>Data model\<close>

text \<open>
  The scheduler of \<^verbatim>\<open>sched.c\<close> works on the structures of \<^verbatim>\<open>block.h\<close>.
  C's \<^verbatim>\<open>int\<close> and \<^verbatim>\<open>unsigned\<close> are 32-bit words, \<^verbatim>\<open>long\<close>, \<^verbatim>\<open>unsigned long\<close> and
  \<^verbatim>\<open>size_t\<close> are 64-bit words (LP64). A \<^verbatim>\<open>char\<close> array of fixed capacity is a list of
  characters whose length is the capacity, so \<^verbatim>\<open>sizeof\<close> of the array is the length
  of the list; the terminator is the character \<open>CHR 0x00\<close>.
\<close>

type_synonym c_int = "32 word"
type_synonym c_ulong = "64 word"

text \<open>
  Modelled from the spec: \<^verbatim>\<open>struct click\<close> of \<^verbatim>\<open>block.h\<close>, which is not among the
  sources: three short text fields of fixed capacity.
\<close>

record click =
  button :: string
  x :: string
  y :: string

text \<open>
  Modelled from the spec: \<^verbatim>\<open>struct block\<close> of \<^verbatim>\<open>block.h\<close>, which is not among the
  sources. The text fields \<open>name\<close>, \<open>instance\<close> and \<open>command\<close> hold the text up to
  the terminator; \<open>interval\<close> and \<open>signal\<close> are unsigned; \<open>last_update\<close> is an
  \<^verbatim>\<open>unsigned long\<close> timestamp; \<open>full_text\<close> stands for the display output that the
  update collaborator fills in.
\<close>

record block =
  name :: string
  "instance" :: string
  command :: string
  interval :: c_int
  signal :: c_int
  last_update :: c_ulong
  full_text :: string
  click :: click

text \<open>
  Modelled from the spec: \<^verbatim>\<open>struct status_line\<close> of \<^verbatim>\<open>block.h\<close>: the array of config
  blocks and the array of runtime blocks, two separate arrays of the same length
  \<open>num\<close>.
\<close>

record status_line =
  blocks :: "block list"
  updated_blocks :: "block list"

definition num :: "status_line \<Rightarrow> nat" where
  "num status = length (blocks status)"

definition wf_status :: "status_line \<Rightarrow> bool" where
  "wf_status status \<longleftrightarrow> length (updated_blocks status) = num status"

section \<open>The sleep duration: \<^verbatim>\<open>longest_sleep\<close>\<close>

text \<open>
  C's \<^verbatim>\<open>%\<close> on \<^verbatim>\<open>int\<close> truncates towards zero: the remainder has the sign of the
  dividend.
\<close>

definition c_rem :: "c_int \<Rightarrow> c_int \<Rightarrow> c_int" where
  "c_rem a b = word_of_int (sint a smod sint b)"

lemma sint_c_rem: "sint (c_rem a b) = sint a smod sint b"
proof (cases "b = 0")
  case True
  then show ?thesis by (simp add: c_rem_def)
next
  case False
  then have nz: "sint b \<noteq> 0" by (simp add: signed_eq_0_iff)
  have r: "sint a smod sint b \<in> {- \<bar>sint b\<bar> + 1..\<bar>sint b\<bar> - 1}"
    by (rule smod_int_range [OF nz])
  have lo: "- (2 ^ 31) \<le> sint b" using sint_ge [of b] by simp
  have hi: "sint b < 2 ^ 31" using sint_lt [of b] by simp
  from r lo hi have "- (2 ^ 31) \<le> sint a smod sint b" and "sint a smod sint b < 2 ^ 31"
    by auto
  then have "signed_take_bit 31 (sint a smod sint b) = sint a smod sint b"
    by (simp add: signed_take_bit_int_eq_self)
  then show ?thesis by (simp add: c_rem_def sint_sbintrunc')
qed

lemma c_rem_decreases: "b \<noteq> 0 \<Longrightarrow> \<bar>sint (c_rem a b)\<bar> < \<bar>sint b\<bar>"
proof -
  assume "b \<noteq> 0"
  then have nz: "sint b \<noteq> 0" by (simp add: signed_eq_0_iff)
  have "sint a smod sint b \<in> {- \<bar>sint b\<bar> + 1..\<bar>sint b\<bar> - 1}"
    by (rule smod_int_range [OF nz])
  then show ?thesis by (auto simp: sint_c_rem)
qed

lemma xor_swap_snd: "b XOR (a XOR b) = (a :: c_int)"
  by (simp add: xor.commute xor.left_commute)

lemma xor_swap_fst: "(a XOR b) XOR (b XOR (a XOR b)) = (b :: c_int)"
  by (simp add: xor_swap_snd xor.commute xor.left_commute)

lemma xor_swap_fst': "(a XOR b) XOR a = (b :: c_int)"
  by (simp add: xor.commute xor.left_commute)

text \<open>
  The nested function \<^verbatim>\<open>gcd\<close>: while \<open>b\<close> is not 0, \<^verbatim>\<open>a %= b\<close> and then the three
  exclusive-ors that swap \<open>a\<close> and \<open>b\<close>. \<^verbatim>\<open>INT_MIN % -1\<close> overflows (it traps on the
  usual hardware): that is the result \<open>None\<close>.
\<close>

function gcd_c :: "c_int \<Rightarrow> c_int \<Rightarrow> c_int option" where
  "gcd_c a b =
     (if b \<noteq> 0 then
        (if a = - (2 ^ 31) \<and> b = - 1 then None
         else let a1 = c_rem a b; a2 = a1 XOR b; b1 = b XOR a2; a3 = a2 XOR b1
              in gcd_c a3 b1)
      else Some a)"
  by pat_completeness auto
termination
  by (relation "measure (\<lambda>(a, b). nat \<bar>sint b\<bar>)")
     (simp_all add: xor_swap_snd c_rem_decreases signed_eq_0_iff)

declare gcd_c.simps [simp del]

lemma gcd_c_0: "gcd_c a 0 = Some a"
  by (subst gcd_c.simps) simp

lemma gcd_c_step:
  "b \<noteq> 0 \<Longrightarrow> \<not> (a = - (2 ^ 31) \<and> b = - 1) \<Longrightarrow> gcd_c a b = gcd_c b (c_rem a b)"
  by (subst gcd_c.simps) (auto simp add: Let_def xor_swap_snd xor_swap_fst)

text \<open>
  The loop \<^verbatim>\<open>for (i = 1; i < status->num; ++i) time = gcd(time, (status->blocks + i)->interval)\<close>,
  over the indices it visits.
\<close>

fun sleep_loop :: "block list \<Rightarrow> nat list \<Rightarrow> c_int \<Rightarrow> c_int option" where
  "sleep_loop bs [] time = Some time"
| "sleep_loop bs (i # is) time =
     (case gcd_c time (interval (bs ! i)) of
        None \<Rightarrow> None
      | Some time' \<Rightarrow> sleep_loop bs is time')"

definition longest_sleep :: "status_line \<Rightarrow> c_int option" where
  "longest_sleep status =
     (let time = 0;
          r = (if num status > 0 then
                 (let time = interval (blocks status ! 0)
                  in if num status \<ge> 2 then sleep_loop (blocks status) [1..<num status] time
                     else Some time)
               else Some time)
      in case r of
           None \<Rightarrow> None
         | Some time \<Rightarrow> Some (if 0 <s time then time else 5))"

section \<open>The update decision: \<^verbatim>\<open>need_update\<close>\<close>

text \<open>
  The text of a \<^verbatim>\<open>char\<close> buffer is what precedes its first terminator; \<^verbatim>\<open>*p != '\0'\<close>
  says that this text is not empty, and \<^verbatim>\<open>strcmp(p, q) == 0\<close> that the two texts are
  equal.
\<close>

definition c_str :: "string \<Rightarrow> string" where
  "c_str buf = takeWhile (\<lambda>c. c \<noteq> CHR 0x00) buf"

text \<open>
  The four local variables of \<^verbatim>\<open>need_update\<close>, each as a function of what it reads:
  the block, the value \<open>now\<close> that \<^verbatim>\<open>time(NULL)\<close> returns, converted to
  \<^verbatim>\<open>unsigned long\<close>, and the global \<^verbatim>\<open>caughtsig\<close>. The sum
  \<^verbatim>\<open>block->last_update + block->interval\<close> and the difference \<^verbatim>\<open>next_update - now\<close>
  are computed in \<^verbatim>\<open>unsigned long\<close> and wrap around; the cast to \<^verbatim>\<open>long\<close> reads the
  difference as a signed number.
\<close>

definition first_time :: "block \<Rightarrow> bool" where
  "first_time b \<longleftrightarrow> last_update b = 0"

definition outdated :: "c_ulong \<Rightarrow> block \<Rightarrow> bool" where
  "outdated now b =
     (if interval b \<noteq> 0 then
        (let next_update = last_update b + ucast (interval b)
         in (next_update - now) \<le>s 0)
      else False)"

definition signaled :: "c_int \<Rightarrow> block \<Rightarrow> bool" where
  "signaled sig b = (if sig \<noteq> 0 then sig = signal b else False)"

definition clicked :: "c_int \<Rightarrow> block \<Rightarrow> bool" where
  "clicked sig b = (if sig \<noteq> 0 then c_str (button (click b)) \<noteq> [] else False)"

definition need_update :: "c_int \<Rightarrow> c_ulong \<Rightarrow> block \<Rightarrow> bool" where
  "need_update sig now b \<longleftrightarrow>
     first_time b \<or> outdated now b \<or> signaled sig b \<or> clicked sig b"

section \<open>The state of the scheduler and its collaborators\<close>

text \<open>
  What \<^verbatim>\<open>sched.c\<close> calls and does not define is a parameter of the model: the clock
  \<^verbatim>\<open>time(NULL)\<close> read in the environment \<open>'w\<close>, \<^verbatim>\<open>block_update\<close>, which rewrites the
  block it is given and changes the environment, \<^verbatim>\<open>json_parse\<close>, which returns the
  start and the length of a field of a buffer, the signal number \<^verbatim>\<open>SIGIO\<close>, and the
  capacities of the three arrays of \<^verbatim>\<open>struct click\<close>.
\<close>

record 'w extern =
  time_null :: "'w \<Rightarrow> c_ulong"
  block_update :: "block \<Rightarrow> 'w \<Rightarrow> block \<times> 'w"
  json_parse :: "string \<Rightarrow> string \<Rightarrow> c_int \<times> c_int"
  SIGIO :: c_int
  sizeof_button :: nat
  sizeof_x :: nat
  sizeof_y :: nat

text \<open>
  The calls to the two collaborators are recorded in order: \<^verbatim>\<open>block_update\<close> with the
  index of the runtime block and the content it is given, \<^verbatim>\<open>json_print_status_line\<close>
  with the status line it renders.
\<close>

datatype call = Block_update nat block | Print_status status_line

record 'w sched =
  caughtsig :: c_int
  line :: status_line
  world :: 'w
  calls :: "call list"

section \<open>One pass over the blocks: \<^verbatim>\<open>update_status_line\<close>\<close>

text \<open>\<^verbatim>\<open>memset(&c, 0, sizeof(struct click))\<close>: every byte of the three arrays is 0.\<close>

definition memset_click :: "click \<Rightarrow> click" where
  "memset_click c =
     \<lparr>button = replicate (length (button c)) (CHR 0x00),
      x = replicate (length (x c)) (CHR 0x00),
      y = replicate (length (y c)) (CHR 0x00)\<rparr>"

text \<open>
  The body of the loop for the index \<open>i\<close>. A static block is skipped before
  \<^verbatim>\<open>need_update\<close> is called. Otherwise, when the runtime block needs an update, its
  click is saved, the whole config block is copied over it, the click is put back,
  \<^verbatim>\<open>block_update\<close> runs on it, and the click is zeroed.
\<close>

definition update_block :: "'w extern \<Rightarrow> nat \<Rightarrow> 'w sched \<Rightarrow> 'w sched" where
  "update_block ext i s =
     (let config_block = blocks (line s) ! i;
          updated_block = updated_blocks (line s) ! i
      in if c_str (command config_block) = [] then s
         else if need_update (caughtsig s) (time_null ext (world s)) updated_block then
           (let saved = click updated_block;
                primed = config_block\<lparr>click := saved\<rparr>;
                (ran, w) = block_update ext primed (world s);
                zeroed = ran\<lparr>click := memset_click (click ran)\<rparr>
            in s\<lparr>line := (line s)\<lparr>updated_blocks := (updated_blocks (line s))[i := zeroed]\<rparr>,
                 world := w,
                 calls := calls s @ [Block_update i primed]\<rparr>)
         else s)"

definition update_status_line :: "'w extern \<Rightarrow> 'w sched \<Rightarrow> 'w sched" where
  "update_status_line ext s =
     (let s' = fold (update_block ext) [0..<num (line s)] s
      in if 0 <s caughtsig s' then s'\<lparr>caughtsig := 0\<rparr> else s')"

section \<open>Clicks: \<^verbatim>\<open>parse_click\<close> and \<^verbatim>\<open>handle_click\<close>\<close>

text \<open>
  A write of the terminator at an offset of the buffer, and \<^verbatim>\<open>memcpy\<close> of \<open>n\<close> bytes
  from an offset of the buffer into an array. An access outside the buffer or outside
  the array is undefined in C: the result \<open>None\<close>.
\<close>

definition poke_nul :: "string \<Rightarrow> int \<Rightarrow> string option" where
  "poke_nul buf i =
     (if 0 \<le> i \<and> i < int (length buf) then Some (buf[nat i := CHR 0x00]) else None)"

definition memcpy_from :: "string \<Rightarrow> string \<Rightarrow> int \<Rightarrow> nat \<Rightarrow> string option" where
  "memcpy_from dst src off n =
     (if 0 \<le> off \<and> nat off + n \<le> length src \<and> n \<le> length dst
      then Some (take n (drop (nat off) src) @ drop n dst)
      else None)"

text \<open>
  \<^verbatim>\<open>MIN(len, sizeof(field) - 1)\<close>: \<open>len\<close> is an \<^verbatim>\<open>int\<close> and \<^verbatim>\<open>sizeof\<close> a \<^verbatim>\<open>size_t\<close>, so
  the comparison and the result are unsigned, of 64 bits, and \<open>len\<close> is sign-extended.
\<close>

definition MIN_len :: "c_int \<Rightarrow> nat \<Rightarrow> nat" where
  "MIN_len len cap =
     (let a = (scast len :: c_ulong); b = (of_nat cap - 1 :: c_ulong)
      in unat (if a < b then a else b))"

text \<open>
  \<^verbatim>\<open>parse_click\<close> returns the buffer as it leaves it, the offsets at which \<open>name\<close> and
  \<open>instance\<close> point into it, and the click.
\<close>

definition parse_click ::
  "(string \<Rightarrow> string \<Rightarrow> c_int \<times> c_int) \<Rightarrow> string \<Rightarrow> click \<Rightarrow> (string \<times> int \<times> int \<times> click) option"
where
  "parse_click jp json c =
     (let (yst, ylen) = jp json ''y'';
          (xst, xlen) = jp json ''x'';
          (bst, blen) = jp json ''button'';
          (ist, ilen) = jp json ''instance'';
          (nst, nlen) = jp json ''name''
      in case poke_nul json (sint nst + sint nlen) of
           None \<Rightarrow> None
         | Some json1 \<Rightarrow>
        (case poke_nul json1 (sint ist + sint ilen) of
           None \<Rightarrow> None
         | Some json2 \<Rightarrow>
        (case memcpy_from (button c) json2 (sint bst) (MIN_len blen (length (button c))) of
           None \<Rightarrow> None
         | Some b \<Rightarrow>
        (case memcpy_from (x c) json2 (sint xst) (MIN_len xlen (length (x c))) of
           None \<Rightarrow> None
         | Some cx \<Rightarrow>
        (case memcpy_from (y c) json2 (sint yst) (MIN_len ylen (length (y c))) of
           None \<Rightarrow> None
         | Some cy \<Rightarrow>
             Some (json2, sint nst, sint ist, \<lparr>button = b, x = cx, y = cy\<rparr>))))))"

text \<open>
  The loop of \<^verbatim>\<open>handle_click\<close> over the indices it visits: the first runtime block
  whose name and instance are those of the click receives it, and the loop stops.
\<close>

fun click_loop :: "string \<Rightarrow> string \<Rightarrow> click \<Rightarrow> nat list \<Rightarrow> block list \<Rightarrow> block list" where
  "click_loop nm inst c [] ubs = ubs"
| "click_loop nm inst c (i # is) ubs =
     (let block = ubs ! i
      in if c_str (name block) = c_str nm \<and> c_str (instance block) = c_str inst
         then ubs[i := block\<lparr>click := c\<rparr>]
         else click_loop nm inst c is ubs)"

text \<open>
  \<^verbatim>\<open>handle_click\<close>: \<open>input\<close> is what standard input holds; \<^verbatim>\<open>fread\<close> copies at most
  1023 bytes of it into the zeroed buffer of 1024 bytes. The texts of \<open>name\<close> and
  \<open>instance\<close> are read in the buffer as \<^verbatim>\<open>parse_click\<close> leaves it, from the two offsets;
  an offset outside the buffer is a read outside it, the result \<open>None\<close>.
\<close>

definition fread_json :: "string \<Rightarrow> string" where
  "fread_json input = take 1023 input @ replicate (1024 - length (take 1023 input)) (CHR 0x00)"

definition handle_click :: "'w extern \<Rightarrow> string \<Rightarrow> 'w sched \<Rightarrow> 'w sched option" where
  "handle_click ext input s =
     (let json = fread_json input;
          c = \<lparr>button = replicate (sizeof_button ext) (CHR 0x00),
               x = replicate (sizeof_x ext) (CHR 0x00),
               y = replicate (sizeof_y ext) (CHR 0x00)\<rparr>
      in case parse_click (json_parse ext) json c of
           None \<Rightarrow> None
         | Some (json', np, ip, c') \<Rightarrow>
             if 0 \<le> np \<and> np < int (length json') \<and> 0 \<le> ip \<and> ip < int (length json') then
               (let nm = drop (nat np) json'; inst = drop (nat ip) json'
                in if c_str nm \<noteq> [] \<or> c_str inst \<noteq> [] then
                     Some (s\<lparr>line := (line s)\<lparr>updated_blocks :=
                        click_loop nm inst c' [0..<num (line s)] (updated_blocks (line s))\<rparr>\<rparr>)
                   else Some s)
             else None)"

section \<open>The loop of \<^verbatim>\<open>sched_start\<close>\<close>

text \<open>
  One sleep, as the scheduler sees it: how the environment changes meanwhile, the
  signals that \<^verbatim>\<open>handler\<close> receives, in order, what \<^verbatim>\<open>sleep\<close> returns, and what
  standard input holds on return.
\<close>

record 'w wakeup =
  elapse :: "'w \<Rightarrow> 'w"
  signals :: "c_int list"
  unslept :: c_int
  stdin :: string

definition handler :: "c_int \<Rightarrow> 'w sched \<Rightarrow> 'w sched" where
  "handler signum s = s\<lparr>caughtsig := signum\<rparr>"

text \<open>
  \<^verbatim>\<open>handler\<close> is asynchronous: it can also run during a pass. In
  \<open>update_status_line_async\<close> the signals \<open>sigs i\<close> reach \<^verbatim>\<open>handler\<close> just before the
  body of the loop runs for the index \<open>i\<close>, and the signals \<open>sigs num\<close> after the loop,
  before the final test of \<^verbatim>\<open>caughtsig\<close>. With no signal at any of these points it is
  \<open>update_status_line\<close>.
\<close>

definition update_block_async ::
  "'w extern \<Rightarrow> (nat \<Rightarrow> c_int list) \<Rightarrow> nat \<Rightarrow> 'w sched \<Rightarrow> 'w sched" where
  "update_block_async ext sigs i s = update_block ext i (fold handler (sigs i) s)"

definition update_status_line_async ::
  "'w extern \<Rightarrow> (nat \<Rightarrow> c_int list) \<Rightarrow> 'w sched \<Rightarrow> 'w sched" where
  "update_status_line_async ext sigs s =
     (let s' = fold (update_block_async ext sigs) [0..<num (line s)] s;
          s'' = fold handler (sigs (num (line s))) s'
      in if 0 <s caughtsig s'' then s''\<lparr>caughtsig := 0\<rparr> else s'')"

definition json_print_status_line :: "'w sched \<Rightarrow> 'w sched" where
  "json_print_status_line s = s\<lparr>calls := calls s @ [Print_status (line s)]\<rparr>"

text \<open>One turn of the \<^verbatim>\<open>while (1)\<close> loop.\<close>

definition cycle :: "'w extern \<Rightarrow> 'w wakeup \<Rightarrow> 'w sched \<Rightarrow> 'w sched option" where
  "cycle ext wk s =
     (let s1 = update_status_line ext s;
          s2 = json_print_status_line s1;
          s3 = fold handler (signals wk) (s2\<lparr>world := elapse wk (world s2)\<rparr>)
      in if unslept wk \<noteq> 0 then
           (if caughtsig s3 = SIGIO ext then handle_click ext (stdin wk) s3 else Some s3)
         else Some s3)"

text \<open>
  The loop has no exit: the model runs one turn for each sleep of a finite list of
  them, and what holds after every such list holds throughout the run.
\<close>

fun sched_loop :: "'w extern \<Rightarrow> 'w wakeup list \<Rightarrow> 'w sched \<Rightarrow> 'w sched option" where
  "sched_loop ext [] s = Some s"
| "sched_loop ext (wk # wks) s =
     (case cycle ext wk s of
        None \<Rightarrow> None
      | Some s' \<Rightarrow> sched_loop ext wks s')"

definition sched_start :: "'w extern \<Rightarrow> 'w wakeup list \<Rightarrow> 'w sched \<Rightarrow> (c_int \<times> 'w sched) option" where
  "sched_start ext wks s =
     (case longest_sleep (line s) of
        None \<Rightarrow> None
      | Some sleeptime \<Rightarrow>
          (case sched_loop ext wks s of
             None \<Rightarrow> None
           | Some s' \<Rightarrow> Some (sleeptime, s')))"

section \<open>Properties of \<^verbatim>\<open>longest_sleep\<close>\<close>

text \<open>
  The nonzero configured intervals, as the numbers they stand for.
\<close>

definition nonzero_intervals :: "status_line \<Rightarrow> nat list" where
  "nonzero_intervals status =
     filter (\<lambda>n. n \<noteq> 0) (map (\<lambda>b. unat (interval b)) (blocks status))"

text \<open>Example values for the concrete checks.\<close>

definition no_click :: click where
  "no_click = \<lparr>button = [CHR 0x00, CHR 0x00], x = replicate 5 (CHR 0x00),
     y = replicate 5 (CHR 0x00)\<rparr>"

definition example_block :: "string \<Rightarrow> string \<Rightarrow> string \<Rightarrow> c_int \<Rightarrow> c_int \<Rightarrow> block" where
  "example_block n i c iv sg =
     \<lparr>name = n, instance = i, command = c, interval = iv, signal = sg,
      last_update = 0, full_text = [], click = no_click\<rparr>"

definition example_config :: "block list" where
  "example_config =
     [example_block ''cpu'' [] ''cpu.sh'' 4 0,
      example_block ''vol'' ''master'' ''vol.sh'' 6 0,
      example_block ''vol'' [] ''vol.sh'' 0 10,
      example_block ''sep'' [] [] 0 0]"

definition example_status :: status_line where
  "example_status = \<lparr>blocks = example_config, updated_blocks = example_config\<rparr>"

subsection \<open>The nested \<^verbatim>\<open>gcd\<close> on intervals that are not negative\<close>

lemma sint_cases: "sint (w :: c_int) = (if uint w < 2 ^ 31 then uint w else uint w - 2 ^ 32)"
proof -
  have u: "0 \<le> uint w" "uint w < 2 ^ 32"
    using uint_lt2p [of w] by simp_all
  have "sint w = take_bit 32 (uint w + 2 ^ 31) - 2 ^ 31"
    by (simp add: sint_uint signed_take_bit_eq_take_bit_shift)
  also have "\<dots> = (uint w + 2 ^ 31) mod 2 ^ 32 - 2 ^ 31"
    by (simp add: take_bit_eq_mod)
  also have "\<dots> = (if uint w < 2 ^ 31 then uint w else uint w - 2 ^ 32)"
  proof (cases "uint w < 2 ^ 31")
    case True
    with u have "(uint w + 2 ^ 31) mod 2 ^ 32 = uint w + 2 ^ 31"
      by (simp add: mod_pos_pos_trivial)
    with True show ?thesis by simp
  next
    case False
    with u have "(uint w + 2 ^ 31) mod 2 ^ 32 = uint w + 2 ^ 31 - 2 ^ 32"
      by (simp add: mod_pos_geq mod_pos_pos_trivial)
    with False show ?thesis by simp
  qed
  finally show ?thesis .
qed

lemma sint_nonneg_unat: "0 \<le> sint (w :: c_int) \<Longrightarrow> sint w = int (unat w)"
  using uint_lt2p [of w] by (simp add: sint_cases split: if_splits)

lemma unat_c_rem:
  assumes a: "0 \<le> sint a" and b: "0 \<le> sint b"
  shows "0 \<le> sint (c_rem a b)" and "unat (c_rem a b) = unat a mod unat b"
proof -
  have e: "sint (c_rem a b) = int (unat a) mod int (unat b)"
    using a b by (simp add: sint_c_rem smod_mod_positive sint_nonneg_unat)
  then show nn: "0 \<le> sint (c_rem a b)" by (simp del: of_nat_unat flip: zmod_int)
  from e sint_nonneg_unat [OF nn] have "int (unat (c_rem a b)) = int (unat a mod unat b)"
    by (simp add: zmod_int del: of_nat_unat)
  then show "unat (c_rem a b) = unat a mod unat b" by (simp only: of_nat_eq_iff)
qed

lemma gcd_c_nonneg:
  "0 \<le> sint a \<Longrightarrow> 0 \<le> sint b \<Longrightarrow>
   \<exists>g. gcd_c a b = Some g \<and> 0 \<le> sint g \<and> unat g = gcd (unat a) (unat b)"
proof (induction a b rule: gcd_c.induct)
  case (1 a b)
  show ?case
  proof (cases "b = 0")
    case True
    with "1.prems" show ?thesis by (simp add: gcd_c_0)
  next
    case False
    from "1.prems" have nmin: "a \<noteq> - (2 ^ 31)" by auto
    have step: "gcd_c a b = gcd_c b (c_rem a b)"
      using False nmin by (simp add: gcd_c_step)
    have r: "0 \<le> sint (c_rem a b)" "unat (c_rem a b) = unat a mod unat b"
      using "1.prems" by (rule unat_c_rem)+
    have "\<exists>g. gcd_c b (c_rem a b) = Some g \<and> 0 \<le> sint g
             \<and> unat g = gcd (unat b) (unat (c_rem a b))"
      using "1.IH" [OF False _ refl refl refl refl] nmin "1.prems"(2) r(1)
      by (simp add: xor_swap_snd xor_swap_fst xor_swap_fst')
    then show ?thesis
      by (simp add: step r(2) gcd_red_nat [of "unat a" "unat b"])
  qed
qed


lemma sleep_loop_nonneg:
  "0 \<le> sint t \<Longrightarrow> \<forall>i\<in>set is. 0 \<le> sint (interval (bs ! i)) \<Longrightarrow>
   \<exists>g. sleep_loop bs is t = Some g \<and> 0 \<le> sint g \<and>
       unat g = Gcd (insert (unat t) ((\<lambda>i. unat (interval (bs ! i))) ` set is))"
proof (induction "is" arbitrary: t)
  case Nil
  then show ?case by simp
next
  case (Cons i "is")
  from Cons.prems have "0 \<le> sint (interval (bs ! i))" by simp
  with Cons.prems(1) obtain g where g: "gcd_c t (interval (bs ! i)) = Some g"
    "0 \<le> sint g" "unat g = gcd (unat t) (unat (interval (bs ! i)))"
    using gcd_c_nonneg by blast
  from Cons.IH [OF g(2)] Cons.prems(2) obtain h where h: "sleep_loop bs is g = Some h"
    "0 \<le> sint h" "unat h = Gcd (insert (unat g) ((\<lambda>i. unat (interval (bs ! i))) ` set is))"
    by auto
  show ?case
    using g h by (simp add: gcd.assoc)
qed

lemma image_nth_upt: "(\<lambda>i. f (bs ! i)) ` set [0..<length bs] = f ` set bs"
proof -
  have "(\<lambda>i. f (bs ! i)) ` set [0..<length bs] = set (map f (map ((!) bs) [0..<length bs]))"
    by (simp add: image_image del: map_nth)
  then show ?thesis by (simp only: map_nth set_map)
qed


lemma Gcd_nonzero: "Gcd (A :: nat set) = Gcd {a \<in> A. a \<noteq> 0}"
proof -
  have "insert 0 {a \<in> A. a \<noteq> 0} = insert 0 A" by auto
  then have "Gcd (insert 0 {a \<in> A. a \<noteq> 0}) = Gcd (insert 0 A)" by simp
  then show ?thesis by simp
qed

lemma longest_sleep_all_intervals:
  assumes nn: "\<forall>b\<in>set (blocks status). 0 \<le> sint (interval b)"
  shows "\<exists>t. longest_sleep status = Some t \<and>
             unat t = (if Gcd (unat ` interval ` set (blocks status)) = 0 then 5
                       else Gcd (unat ` interval ` set (blocks status)))"
proof (cases "blocks status")
  case Nil
  then show ?thesis by (simp add: longest_sleep_def num_def)
next
  case (Cons b bs)
  let ?bl = "blocks status"
  have len: "0 < length ?bl" using Cons by simp
  have t0: "0 \<le> sint (interval (?bl ! 0))" using nn Cons by simp
  have all: "\<forall>i\<in>set [1..<length ?bl]. 0 \<le> sint (interval (?bl ! i))"
    using nn by simp
  from sleep_loop_nonneg [OF t0 all] obtain g where
    g: "sleep_loop ?bl [1..<length ?bl] (interval (?bl ! 0)) = Some g" "0 \<le> sint g"
       "unat g = Gcd (insert (unat (interval (?bl ! 0)))
                  ((\<lambda>i. unat (interval (?bl ! i))) ` set [1..<length ?bl]))"
    by blast
  have "insert (unat (interval (?bl ! 0))) ((\<lambda>i. unat (interval (?bl ! i))) ` set [1..<length ?bl])
        = (\<lambda>i. unat (interval (?bl ! i))) ` set [0..<length ?bl]"
    using len by (auto simp: image_iff Bex_def less_Suc_eq_0_disj gr0_conv_Suc)
  also have "\<dots> = unat ` interval ` set ?bl"
    using image_nth_upt [of "\<lambda>b. unat (interval b)" ?bl] by (simp add: image_image)
  finally have G: "unat g = Gcd (unat ` interval ` set ?bl)" using g(3) by simp
  have one: "length ?bl < 2 \<Longrightarrow> [1..<length ?bl] = []" by simp
  have r: "(if num status \<ge> 2 then sleep_loop ?bl [1..<num status] (interval (?bl ! 0))
            else Some (interval (?bl ! 0))) = Some g"
    using g(1) one by (auto simp: num_def not_le)
  have pos: "0 <s g \<longleftrightarrow> unat g \<noteq> 0"
    using g(2) by (auto simp: word_sless_alt signed_eq_0_iff unsigned_eq_0_iff order_less_le)
  show ?thesis
    using len r pos G by (simp add: longest_sleep_def Let_def num_def del: One_nat_def)
qed

definition wide_status :: status_line where
  "wide_status =
     \<lparr>blocks = [example_block ''cpu'' [] ''cpu.sh'' 4294967293 0,
                example_block ''vol'' [] ''vol.sh'' 9 0],
      updated_blocks = [example_block ''cpu'' [] ''cpu.sh'' 4294967293 0,
                example_block ''vol'' [] ''vol.sh'' 9 0]\<rparr>"

lemma gcd_wide: "Gcd (set [4294967293, 9 :: nat]) = 1"
proof -
  have "gcd (4294967293 :: nat) 9 = gcd 9 (4294967293 mod 9)" by (rule gcd_red_nat)
  also have "(4294967293 :: nat) mod 9 = 1" by simp
  finally have "gcd (4294967293 :: nat) 9 = 1" by simp
  then show ?thesis by simp
qed

text \<open>
  C1, as the claim states it, fails for an interval above \<^verbatim>\<open>INT_MAX\<close>, which is a
  negative \<^verbatim>\<open>int\<close> for \<^verbatim>\<open>gcd\<close> and for the final test \<^verbatim>\<open>time > 0\<close>: with the two
  intervals \<open>2 ^ 32 - 3\<close> and 9, whose greatest common divisor is 1, \<^verbatim>\<open>gcd\<close> returns
  \<open>- 3\<close> and \<^verbatim>\<open>longest_sleep\<close> the default 5, which does not divide 9.
\<close>

theorem longest_sleep_above_int_max_counterexample:
  "nonzero_intervals wide_status = [4294967293, 9] \<and>
   longest_sleep wide_status = Some 5 \<and>
   Gcd (set (nonzero_intervals wide_status)) = 1 \<and>
   \<not> (5 :: nat) dvd 9"
proof -
  have n: "nonzero_intervals wide_status = [4294967293, 9]"
    by (simp add: nonzero_intervals_def wide_status_def example_block_def)
  have l: "longest_sleep wide_status = Some 5" by code_simp
  have d: "\<not> (5 :: nat) dvd 9" by simp
  from n l d gcd_wide show ?thesis by simp
qed

lemma unat_eq_2: "unat (t :: c_int) = 2 \<Longrightarrow> t = 2"
proof -
  assume "unat t = 2"
  then have "unat t = unat (2 :: c_int)" by simp
  then show ?thesis by (simp only: word_unat_eq_iff)
qed

text \<open>
  C1, amended: for every status line whose intervals are all at most \<^verbatim>\<open>INT_MAX\<close>, that
  is, not negative as the \<^verbatim>\<open>int\<close> that \<^verbatim>\<open>gcd\<close> takes, \<^verbatim>\<open>longest_sleep\<close> returns, and
  its result is the greatest common divisor of the nonzero intervals, which divides each
  of them; with no block or with every interval 0, the result is the default 5.
\<close>

theorem longest_sleep_gcd:
  assumes nn: "\<forall>b\<in>set (blocks status). 0 \<le> sint (interval b)"
  shows "\<exists>t. longest_sleep status = Some t \<and>
           (if nonzero_intervals status = [] then unat t = 5
            else unat t = Gcd (set (nonzero_intervals status)) \<and>
                 (\<forall>n\<in>set (nonzero_intervals status). unat t dvd n))"
proof -
  let ?A = "unat ` interval ` set (blocks status)"
  have s: "set (nonzero_intervals status) = {a \<in> ?A. a \<noteq> 0}"
    by (auto simp: nonzero_intervals_def)
  have G: "Gcd ?A = Gcd (set (nonzero_intervals status))"
    using Gcd_nonzero [of ?A] by (simp only: s)
  have z: "Gcd ?A = 0 \<longleftrightarrow> nonzero_intervals status = []"
  proof
    assume "Gcd ?A = 0"
    then have "?A \<subseteq> {0}" by (simp only: Gcd_0_iff)
    then have "{a \<in> ?A. a \<noteq> 0} = {}" by auto
    then show "nonzero_intervals status = []" by (simp only: s [symmetric] set_empty)
  next
    assume "nonzero_intervals status = []"
    then show "Gcd ?A = 0" by (simp add: G)
  qed
  from longest_sleep_all_intervals [OF nn] obtain t where
    t: "longest_sleep status = Some t"
       "unat t = (if Gcd ?A = 0 then 5 else Gcd ?A)"
    by blast
  show ?thesis
  proof (cases "nonzero_intervals status = []")
    case True
    with t z show ?thesis by simp
  next
    case False
    with t z G have "unat t = Gcd (set (nonzero_intervals status))" by simp
    with t(1) False show ?thesis by simp
  qed
qed

theorem longest_sleep_gcd_witness:
  "list_all (\<lambda>b. 0 \<le> sint (interval b)) (blocks example_status) \<and>
   nonzero_intervals example_status = [4, 6] \<and>
   longest_sleep example_status = Some 2"
proof -
  have h: "\<forall>b\<in>set (blocks example_status). 0 \<le> sint (interval b)"
    by (simp add: example_status_def example_config_def example_block_def)
  have n: "nonzero_intervals example_status = [4, 6]"
    by (simp add: nonzero_intervals_def example_status_def example_config_def example_block_def)
  have g: "Gcd (set [4, 6 :: nat]) = 2"
    by code_simp
  have ne: "[4, 6 :: nat] \<noteq> []" by simp
  from longest_sleep_gcd [OF h] obtain t where
    t: "longest_sleep example_status = Some t"
    and u: "if [4, 6 :: nat] = [] then unat t = 5
         else unat t = 2 \<and> (\<forall>n\<in>set [4, 6 :: nat]. unat t dvd n)"
    unfolding n g by blast
  from u ne have "unat t = 2" by (simp only: if_False)
  then have "t = 2" by (rule unat_eq_2)
  with t h n show ?thesis by (simp add: list_all_iff)
qed

section \<open>Properties of \<^verbatim>\<open>need_update\<close>\<close>

text \<open>
  The comparison as the specification words it: the signed reading of
  \<open>now - (last_update + interval)\<close> is not negative.
\<close>

definition spec_due :: "c_ulong \<Rightarrow> block \<Rightarrow> bool" where
  "spec_due now b \<longleftrightarrow> 0 \<le>s now - (last_update b + ucast (interval b))"

definition due_block :: block where
  "due_block = (example_block ''cpu'' [] ''cpu.sh'' 4 0)\<lparr>last_update := 100\<rparr>"

definition clicked_block :: block where
  "clicked_block = (example_block ''vol'' [] ''vol.sh'' 0 10)
     \<lparr>last_update := 100,
      click := \<lparr>button = [CHR ''1'', CHR 0x00], x = ''10'' @ replicate 3 (CHR 0x00),
         y = ''20'' @ replicate 3 (CHR 0x00)\<rparr>\<rparr>"

lemma sint_minus_long:
  fixes d :: c_ulong
  assumes "d \<noteq> 2 ^ 63"
  shows "sint (- d) = - sint d"
proof -
  have lo: "- (2 ^ 63) \<le> sint d" using sint_ge [of d] by simp
  have hi: "sint d < 2 ^ 63" using sint_lt [of d] by simp
  have "sint d \<noteq> - (2 ^ 63)"
  proof
    assume "sint d = - (2 ^ 63)"
    then have "word_of_int (sint d) = (word_of_int (- (2 ^ 63)) :: c_ulong)" by simp
    then have "d = - (2 ^ 63)" by simp
    also have "\<dots> = (2 ^ 63 :: c_ulong)" by simp
    finally show False using assms by simp
  qed
  with lo hi have "- (2 ^ 63) \<le> - sint d" "- sint d < 2 ^ 63" by simp_all
  then have "signed_take_bit 63 (- sint d) = - sint d"
    by (simp add: signed_take_bit_int_eq_self)
  then show ?thesis by (simp add: sint_word_minus)
qed

lemma sle_flip:
  fixes a b :: c_ulong
  assumes "a - b \<noteq> 2 ^ 63"
  shows "a - b \<le>s 0 \<longleftrightarrow> 0 \<le>s b - a"
proof -
  have "b - a = - (a - b)" by simp
  then have "sint (b - a) = - sint (a - b)" using sint_minus_long [OF assms] by simp
  then show ?thesis by (simp add: word_sle_eq)
qed

text \<open>
  Where the two time stamps are exactly half the range of the counter apart, the test of
  the code, \<^verbatim>\<open>(long) (next_update - now) <= 0\<close>, holds and the signed reading of
  \<open>now - next_update\<close> is negative.
\<close>

lemma need_update_half_range:
  "need_update 0 0 ((example_block ''cpu'' [] ''cpu.sh'' 1 0)\<lparr>last_update := 2 ^ 63 - 1\<rparr>) \<and>
   \<not> spec_due 0 ((example_block ''cpu'' [] ''cpu.sh'' 1 0)\<lparr>last_update := 2 ^ 63 - 1\<rparr>)"
  by (simp add: need_update_def first_time_def outdated_def spec_due_def example_block_def
      word_sle_eq)

text \<open>
  C2, as the claim states it, fails on a block that has never run: with \<open>last_update\<close>
  0, interval 10 and the clock at 5, no signal and no click, \<^verbatim>\<open>need_update\<close> is true
  (\<open>first_time\<close>) although \<open>now - (last_update + interval)\<close> is negative.
\<close>

theorem need_update_first_time_counterexample:
  "interval (example_block ''cpu'' [] ''cpu.sh'' 10 0) \<noteq> 0 \<and>
   c_str (button (click (example_block ''cpu'' [] ''cpu.sh'' 10 0))) = [] \<and>
   \<not> (need_update 0 5 (example_block ''cpu'' [] ''cpu.sh'' 10 0)
        \<longleftrightarrow> spec_due 5 (example_block ''cpu'' [] ''cpu.sh'' 10 0))"
  by (simp add: need_update_def first_time_def spec_due_def example_block_def no_click_def
      c_str_def word_sle_eq)

text \<open>
  C2, amended: a block that has never run (\<open>last_update\<close> is 0) needs an update
  whatever its interval, the clock and the signal. For a block with a nonzero interval
  that has run before (\<open>last_update\<close> is not 0), with no signal pending or with a
  signal that is not the block's and no click, \<^verbatim>\<open>need_update\<close> is true exactly when the
  signed reading of \<open>(last_update + interval) - now\<close>, computed with wrap-around, is at
  most 0. Unless that difference is exactly \<open>2 ^ 63\<close>, this is the signed reading of
  \<open>now - (last_update + interval)\<close> being at least 0. At the instant of equality the
  block is due.
\<close>

theorem need_update_outdated:
  "(last_update b = 0 \<longrightarrow> need_update sig now b) \<and>
   (interval b \<noteq> 0 \<and> last_update b \<noteq> 0 \<and>
    (sig = 0 \<or> (sig \<noteq> signal b \<and> c_str (button (click b)) = [])) \<longrightarrow>
      (need_update sig now b \<longleftrightarrow> (last_update b + ucast (interval b)) - now \<le>s 0) \<and>
      ((last_update b + ucast (interval b)) - now \<noteq> 2 ^ 63 \<longrightarrow>
         (need_update sig now b \<longleftrightarrow> spec_due now b)) \<and>
      (now = last_update b + ucast (interval b) \<longrightarrow> need_update sig now b))"
proof -
  have f: "last_update b = 0 \<Longrightarrow> need_update sig now b"
    by (simp add: need_update_def first_time_def)
  have n: "need_update sig now b \<longleftrightarrow> (last_update b + ucast (interval b)) - now \<le>s 0"
    if "interval b \<noteq> 0" "last_update b \<noteq> 0"
      "sig = 0 \<or> (sig \<noteq> signal b \<and> c_str (button (click b)) = [])"
    using that
    by (auto simp: need_update_def first_time_def outdated_def signaled_def clicked_def Let_def)
  show ?thesis
    using f n sle_flip [of "last_update b + ucast (interval b)" now]
    by (auto simp: spec_due_def)
qed

theorem need_update_outdated_witness:
  "interval due_block \<noteq> 0 \<and> last_update due_block \<noteq> 0 \<and>
   c_str (button (click due_block)) = [] \<and>
   \<not> need_update 0 103 due_block \<and> need_update 0 104 due_block \<and> need_update 0 105 due_block
   \<and> spec_due 104 due_block \<and> \<not> spec_due 103 due_block \<and>
   last_update (example_block ''cpu'' [] ''cpu.sh'' 10 0) = 0 \<and>
   need_update 0 5 (example_block ''cpu'' [] ''cpu.sh'' 10 0)"
proof -
  have h: "interval due_block \<noteq> 0 \<and> last_update due_block \<noteq> 0 \<and>
    ((0::c_int) = 0 \<or> ((0::c_int) \<noteq> signal due_block \<and> c_str (button (click due_block)) = []))"
    by (simp add: due_block_def example_block_def)
  have c: "c_str (button (click due_block)) = []"
    by (simp add: due_block_def example_block_def no_click_def c_str_def)
  have v: "last_update due_block + ucast (interval due_block) = 104"
    by (simp add: due_block_def example_block_def)
  have z: "last_update (example_block ''cpu'' [] ''cpu.sh'' 10 0) = 0"
    by (simp add: example_block_def)
  have d: "(104 :: c_ulong) - 103 \<noteq> 2 ^ 63" "(104 :: c_ulong) - 104 \<noteq> 2 ^ 63" by simp_all
  from need_update_outdated [of due_block 0 103] h
  have a: "\<not> need_update 0 103 due_block" "\<not> spec_due 103 due_block"
    by (auto simp: v word_sle_eq)
  from need_update_outdated [of due_block 0 104] h
  have b: "need_update 0 104 due_block" "spec_due 104 due_block"
    by (auto simp: v)
  from need_update_outdated [of due_block 0 105] h
  have e: "need_update 0 105 due_block"
    by (auto simp: v word_sle_eq)
  from need_update_outdated [of "example_block ''cpu'' [] ''cpu.sh'' 10 0" 0 5] z
  have f: "need_update 0 5 (example_block ''cpu'' [] ''cpu.sh'' 10 0)" by blast
  from h c a b e z f show ?thesis by blast
qed

text \<open>
  C3, as the claim states it, fails when no signal is pending: a block that has run
  before, with interval 0 and the click button \<open>1\<close> attached, is not \<open>clicked\<close> and
  needs no update while \<^verbatim>\<open>caughtsig\<close> is 0.
\<close>

theorem clicked_none_counterexample:
  "c_str (button (click clicked_block)) = ''1'' \<and>
   \<not> clicked 0 clicked_block \<and> \<not> need_update 0 200 clicked_block"
  by (simp add: need_update_def clicked_def first_time_def outdated_def signaled_def
      clicked_block_def example_block_def c_str_def)

text \<open>
  C3, amended: for every runtime block and every value of \<^verbatim>\<open>caughtsig\<close>, \<open>clicked\<close> is
  true exactly when \<^verbatim>\<open>caughtsig\<close> is not 0 and the button field of the block's click is
  not empty; it is one of the four conditions whose disjunction \<^verbatim>\<open>need_update\<close>
  returns; and while \<^verbatim>\<open>caughtsig\<close> is 0 the click of the block has no influence on the
  decision.
\<close>

theorem clicked_only_when_signaled:
  "(clicked sig b \<longleftrightarrow> sig \<noteq> 0 \<and> c_str (button (click b)) \<noteq> []) \<and>
   (need_update sig now b \<longleftrightarrow>
      first_time b \<or> outdated now b \<or> signaled sig b \<or>
      (sig \<noteq> 0 \<and> c_str (button (click b)) \<noteq> [])) \<and>
   (need_update 0 now (b\<lparr>click := c\<rparr>) \<longleftrightarrow> need_update 0 now b)"
  by (simp add: need_update_def clicked_def first_time_def outdated_def signaled_def)

section \<open>Properties of \<^verbatim>\<open>update_status_line\<close>\<close>

text \<open>
  Notions used to state the properties: the state in which the loop reaches the index
  \<open>k\<close>; whether the loop body runs \<^verbatim>\<open>block_update\<close> for the index \<open>i\<close> in a state;
  the block it is then given; a click whose bytes are all 0; the calls made between two
  states.
\<close>


definition loop_upto :: "'w extern \<Rightarrow> nat \<Rightarrow> 'w sched \<Rightarrow> 'w sched" where
  "loop_upto ext k s = fold (update_block ext) [0..<k] s"

definition dispatched :: "'w extern \<Rightarrow> nat \<Rightarrow> 'w sched \<Rightarrow> bool" where
  "dispatched ext i s \<longleftrightarrow>
     c_str (command (blocks (line s) ! i)) \<noteq> [] \<and>
     need_update (caughtsig s) (time_null ext (world s)) (updated_blocks (line s) ! i)"

definition primed_block :: "nat \<Rightarrow> 'w sched \<Rightarrow> block" where
  "primed_block i s = (blocks (line s) ! i)\<lparr>click := click (updated_blocks (line s) ! i)\<rparr>"

definition cleared :: "click \<Rightarrow> bool" where
  "cleared c \<longleftrightarrow> list_all (\<lambda>k. k = CHR 0x00) (button c) \<and> list_all (\<lambda>k. k = CHR 0x00) (x c)
     \<and> list_all (\<lambda>k. k = CHR 0x00) (y c)"

definition new_calls :: "'w sched \<Rightarrow> 'w sched \<Rightarrow> call list" where
  "new_calls s s' = drop (length (calls s)) (calls s')"

text \<open>
  A collaborator and states for the concrete checks: the environment is the clock,
  \<^verbatim>\<open>block_update\<close> stamps the block and lets one second pass, and \<^verbatim>\<open>json_parse\<close>
  answers for the one buffer \<open>example_input\<close>.
\<close>


definition example_input :: string where
  \<open>example_input = '',{"name":"vol","instance":"","button":"1","x":"10","y":"20"}''\<close>

definition example_json_parse :: "string \<Rightarrow> string \<Rightarrow> c_int \<times> c_int" where
  "example_json_parse json key =
     (if key = ''name'' then (10, 3)
      else if key = ''instance'' then (27, 0)
      else if key = ''button'' then (39, 1)
      else if key = ''x'' then (47, 2)
      else if key = ''y'' then (56, 2)
      else (0, 0))"

definition example_ext :: "c_ulong extern" where
  "example_ext =
     \<lparr>time_null = (\<lambda>w. w),
      block_update = (\<lambda>b w. (b\<lparr>last_update := w, full_text := ''ok''\<rparr>, w + 1)),
      json_parse = example_json_parse,
      SIGIO = 29,
      sizeof_button = 2, sizeof_x = 5, sizeof_y = 5\<rparr>"

definition one_click :: click where
  "one_click = \<lparr>button = [CHR ''1'', CHR 0x00], x = ''10'' @ replicate 3 (CHR 0x00),
         y = ''20'' @ replicate 3 (CHR 0x00)\<rparr>"

definition clicked_static :: "c_ulong sched" where
  "clicked_static =
     \<lparr>caughtsig = 29,
      line = \<lparr>blocks = example_config,
              updated_blocks = example_config[3 := (example_config ! 3)\<lparr>click := one_click\<rparr>]\<rparr>,
      world = 1000, calls = []\<rparr>"

lemma cleared_memset: "cleared (memset_click c)"
  by (simp add: cleared_def memset_click_def list_all_iff)

lemma update_block_skip: "\<not> dispatched ext i s \<Longrightarrow> update_block ext i s = s"
  by (auto simp: update_block_def dispatched_def Let_def)

lemma update_block_run:
  "dispatched ext i s \<Longrightarrow>
   update_block ext i s =
     s\<lparr>line := (line s)\<lparr>updated_blocks := (updated_blocks (line s))
           [i := (fst (block_update ext (primed_block i s) (world s)))
                   \<lparr>click := memset_click (click (fst (block_update ext (primed_block i s) (world s))))\<rparr>]\<rparr>,
        world := snd (block_update ext (primed_block i s) (world s)),
        calls := calls s @ [Block_update i (primed_block i s)]\<rparr>"
  by (auto simp: update_block_def dispatched_def primed_block_def Let_def split: prod.splits)

lemma update_block_blocks [simp]: "blocks (line (update_block ext i s)) = blocks (line s)"
  by (cases "dispatched ext i s") (simp_all add: update_block_skip update_block_run)

lemma update_block_caughtsig [simp]: "caughtsig (update_block ext i s) = caughtsig s"
  by (cases "dispatched ext i s") (simp_all add: update_block_skip update_block_run)

lemma update_block_length [simp]:
  "length (updated_blocks (line (update_block ext i s))) = length (updated_blocks (line s))"
  by (cases "dispatched ext i s") (simp_all add: update_block_skip update_block_run)

lemma update_block_other:
  "j \<noteq> i \<Longrightarrow> updated_blocks (line (update_block ext i s)) ! j = updated_blocks (line s) ! j"
  by (cases "dispatched ext i s") (simp_all add: update_block_skip update_block_run)

lemma update_block_calls:
  "calls (update_block ext i s) =
     calls s @ (if dispatched ext i s then [Block_update i (primed_block i s)] else [])"
  by (cases "dispatched ext i s") (simp_all add: update_block_skip update_block_run)

lemma update_block_cleared:
  "dispatched ext i s \<Longrightarrow> i < length (updated_blocks (line s)) \<Longrightarrow>
   cleared (click (updated_blocks (line (update_block ext i s)) ! i))"
  by (simp add: update_block_run cleared_memset)

lemma loop_upto_0 [simp]: "loop_upto ext 0 s = s"
  by (simp add: loop_upto_def)

lemma loop_upto_Suc: "loop_upto ext (Suc k) s = update_block ext k (loop_upto ext k s)"
  by (simp add: loop_upto_def)

lemma loop_upto_blocks [simp]: "blocks (line (loop_upto ext k s)) = blocks (line s)"
  by (induction k) (simp_all add: loop_upto_Suc)

lemma loop_upto_caughtsig [simp]: "caughtsig (loop_upto ext k s) = caughtsig s"
  by (induction k) (simp_all add: loop_upto_Suc)

lemma loop_upto_length [simp]:
  "length (updated_blocks (line (loop_upto ext k s))) = length (updated_blocks (line s))"
  by (induction k) (simp_all add: loop_upto_Suc)

lemma loop_upto_later:
  "k \<le> j \<Longrightarrow> updated_blocks (line (loop_upto ext k s)) ! j = updated_blocks (line s) ! j"
  by (induction k) (simp_all add: loop_upto_Suc update_block_other)

lemma loop_upto_earlier:
  "i < k \<Longrightarrow> updated_blocks (line (loop_upto ext k s)) ! i
     = updated_blocks (line (loop_upto ext (Suc i) s)) ! i"
proof (induction k)
  case 0
  then show ?case by simp
next
  case (Suc k)
  show ?case
  proof (cases "i = k")
    case True
    then show ?thesis by simp
  next
    case False
    with Suc.prems have "i < k" by simp
    with Suc.IH False show ?thesis
      by (simp add: loop_upto_Suc [of ext k] update_block_other)
  qed
qed


lemma primed_block_loop_upto [simp]: "primed_block i (loop_upto ext i s) = primed_block i s"
  by (simp add: primed_block_def loop_upto_later)

lemma loop_upto_calls:
  "calls (loop_upto ext k s) =
     calls s @ concat (map (\<lambda>i. if dispatched ext i (loop_upto ext i s)
                                then [Block_update i (primed_block i s)] else []) [0..<k])"
  by (induction k) (simp_all add: loop_upto_Suc update_block_calls)

lemma update_status_line_loop:
  "update_status_line ext s =
     (if 0 <s caughtsig s then (loop_upto ext (num (line s)) s)\<lparr>caughtsig := 0\<rparr>
      else loop_upto ext (num (line s)) s)"
proof -
  have "fold (update_block ext) [0..<num (line s)] s = loop_upto ext (num (line s)) s"
    by (simp only: loop_upto_def)
  then show ?thesis by (simp add: update_status_line_def Let_def)
qed

lemma usl_line [simp]:
  "line (update_status_line ext s) = line (loop_upto ext (num (line s)) s)"
  by (simp add: update_status_line_loop)

lemma usl_calls [simp]:
  "calls (update_status_line ext s) = calls (loop_upto ext (num (line s)) s)"
  by (simp add: update_status_line_loop)

lemma usl_world [simp]:
  "world (update_status_line ext s) = world (loop_upto ext (num (line s)) s)"
  by (simp add: update_status_line_loop)

lemma dispatched_loop_upto:
  "dispatched ext i (loop_upto ext i s) \<longleftrightarrow>
     c_str (command (blocks (line s) ! i)) \<noteq> [] \<and>
     need_update (caughtsig s) (time_null ext (world (loop_upto ext i s)))
       (updated_blocks (line s) ! i)"
  by (simp add: dispatched_def loop_upto_later)

lemma pass_block:
  assumes "i < length (updated_blocks (line s))" and "i < num (line s)"
  shows "updated_blocks (line (update_status_line ext s)) ! i =
     (if dispatched ext i (loop_upto ext i s) then
        (fst (block_update ext (primed_block i s) (world (loop_upto ext i s))))
          \<lparr>click := memset_click
             (click (fst (block_update ext (primed_block i s) (world (loop_upto ext i s)))))\<rparr>
      else updated_blocks (line s) ! i)"
proof -
  have "updated_blocks (line (update_status_line ext s)) ! i
      = updated_blocks (line (loop_upto ext (Suc i) s)) ! i"
    using loop_upto_earlier [OF assms(2), of ext s] by simp
  also have "\<dots> = updated_blocks (line (update_block ext i (loop_upto ext i s))) ! i"
    by (simp add: loop_upto_Suc)
  also have "\<dots> = (if dispatched ext i (loop_upto ext i s) then
        (fst (block_update ext (primed_block i s) (world (loop_upto ext i s))))
          \<lparr>click := memset_click
             (click (fst (block_update ext (primed_block i s) (world (loop_upto ext i s)))))\<rparr>
      else updated_blocks (line s) ! i)"
    using assms(1)
    by (cases "dispatched ext i (loop_upto ext i s)")
       (simp_all add: update_block_skip update_block_run loop_upto_later)
  finally show ?thesis .
qed

text \<open>
  C4, as the claim states it, fails for a static block: the runtime block 3 has no
  command and carries a click; after the pass its click is still there.
\<close>


theorem pass_keeps_static_click_counterexample:
  "c_str (command (blocks (line clicked_static) ! 3)) = [] \<and>
   c_str (button (click (updated_blocks (line clicked_static) ! 3))) = ''1'' \<and>
   c_str (button (click (updated_blocks (line (update_status_line example_ext clicked_static)) ! 3))) = ''1''"
  by code_simp

text \<open>
  C4, amended: after a pass over a status line whose two arrays have the same length,
  a block that has a command and for which \<^verbatim>\<open>need_update\<close> held when the loop reached
  it has a click whose bytes are all 0; every other block, static or not needing an
  update, is the runtime block it was before the pass, its click included.
\<close>


theorem pass_clears_dispatched:
  assumes "wf_status (line s)" and "i < num (line s)"
  shows "if c_str (command (blocks (line s) ! i)) \<noteq> [] \<and>
            need_update (caughtsig s) (time_null ext (world (loop_upto ext i s)))
              (updated_blocks (line s) ! i)
         then cleared (click (updated_blocks (line (update_status_line ext s)) ! i))
         else updated_blocks (line (update_status_line ext s)) ! i = updated_blocks (line s) ! i"
proof -
  from assms have l: "i < length (updated_blocks (line s))" by (simp add: wf_status_def)
  show ?thesis
    using pass_block [OF l assms(2), of ext]
    by (simp add: dispatched_loop_upto cleared_memset)
qed

theorem pass_clears_dispatched_witness:
  "wf_status (line clicked_static) \<and> 2 < num (line clicked_static) \<and>
   3 < num (line clicked_static) \<and>
   cleared (click (updated_blocks (line (update_status_line example_ext clicked_static)) ! 2)) \<and>
   updated_blocks (line (update_status_line example_ext clicked_static)) ! 3
     = updated_blocks (line clicked_static) ! 3"
proof -
  have wf: "wf_status (line clicked_static)" by code_simp
  have i2: "2 < num (line clicked_static)" and i3: "3 < num (line clicked_static)"
    by code_simp+
  have c2: "c_str (command (blocks (line clicked_static) ! 2)) \<noteq> [] \<and>
            need_update (caughtsig clicked_static)
              (time_null example_ext (world (loop_upto example_ext 2 clicked_static)))
              (updated_blocks (line clicked_static) ! 2)"
    by code_simp
  have c3: "\<not> (c_str (command (blocks (line clicked_static) ! 3)) \<noteq> [] \<and>
            need_update (caughtsig clicked_static)
              (time_null example_ext (world (loop_upto example_ext 3 clicked_static)))
              (updated_blocks (line clicked_static) ! 3))"
    by code_simp
  from pass_clears_dispatched [OF wf i2, of example_ext] c2
  have r2: "cleared (click (updated_blocks (line (update_status_line example_ext clicked_static)) ! 2))"
    by simp
  from pass_clears_dispatched [OF wf i3, of example_ext] c3
  have r3: "updated_blocks (line (update_status_line example_ext clicked_static)) ! 3
     = updated_blocks (line clicked_static) ! 3"
    by simp
  from wf i2 i3 r2 r3 show ?thesis by blast
qed

text \<open>
  C5: for a block that has a command and needs an update when the loop reaches it,
  the pass calls \<^verbatim>\<open>block_update\<close> on the config block with the click that the runtime
  block held before the pass, every call of the pass for this index has this argument,
  and what the pass stores is what the collaborator returned with the click zeroed.
\<close>


theorem pass_primes_block:
  assumes "wf_status (line s)" and "i < num (line s)"
    and "c_str (command (blocks (line s) ! i)) \<noteq> []"
    and "need_update (caughtsig s) (time_null ext (world (loop_upto ext i s)))
              (updated_blocks (line s) ! i)"
  shows "Block_update i ((blocks (line s) ! i)\<lparr>click := click (updated_blocks (line s) ! i)\<rparr>)
           \<in> set (new_calls s (update_status_line ext s)) \<and>
         (\<forall>arg. Block_update i arg \<in> set (new_calls s (update_status_line ext s)) \<longrightarrow>
            arg = (blocks (line s) ! i)\<lparr>click := click (updated_blocks (line s) ! i)\<rparr>) \<and>
         updated_blocks (line (update_status_line ext s)) ! i =
           (let ran = fst (block_update ext
                  ((blocks (line s) ! i)\<lparr>click := click (updated_blocks (line s) ! i)\<rparr>)
                  (world (loop_upto ext i s)))
            in ran\<lparr>click := memset_click (click ran)\<rparr>) \<and>
         cleared (click (updated_blocks (line (update_status_line ext s)) ! i))"
proof -
  from assms have l: "i < length (updated_blocks (line s))" by (simp add: wf_status_def)
  have d: "dispatched ext i (loop_upto ext i s)"
    using assms(3,4) by (simp add: dispatched_loop_upto)
  have n: "new_calls s (update_status_line ext s) =
     concat (map (\<lambda>i. if dispatched ext i (loop_upto ext i s)
                                then [Block_update i (primed_block i s)] else []) [0..<num (line s)])"
    by (simp add: new_calls_def loop_upto_calls)
  have a: "Block_update i (primed_block i s) \<in> set (new_calls s (update_status_line ext s))"
    using d assms(2) by (auto simp: n)
  have b: "\<forall>arg. Block_update i arg \<in> set (new_calls s (update_status_line ext s)) \<longrightarrow>
            arg = primed_block i s"
  proof (intro allI impI)
    fix arg
    assume "Block_update i arg \<in> set (new_calls s (update_status_line ext s))"
    then obtain j where "Block_update i arg \<in> set (if dispatched ext j (loop_upto ext j s)
                                then [Block_update j (primed_block j s)] else [])"
      unfolding n by auto
    then have "Block_update i arg = Block_update j (primed_block j s)"
      by (simp split: if_splits)
    then show "arg = primed_block i s" by simp
  qed
  have c: "cleared (click (updated_blocks (line (update_status_line ext s)) ! i))"
    using pass_block [OF l assms(2), of ext] d by (simp add: cleared_memset)
  have e: "updated_blocks (line (update_status_line ext s)) ! i =
           (let ran = fst (block_update ext (primed_block i s) (world (loop_upto ext i s)))
            in ran\<lparr>click := memset_click (click ran)\<rparr>)"
    using pass_block [OF l assms(2), of ext] d by (simp add: Let_def)
  from a b c e show ?thesis unfolding primed_block_def by blast
qed

theorem pass_primes_block_witness:
  "wf_status (line clicked_static) \<and> 2 < num (line clicked_static) \<and>
   c_str (command (blocks (line clicked_static) ! 2)) \<noteq> [] \<and>
   need_update (caughtsig clicked_static)
     (time_null example_ext (world (loop_upto example_ext 2 clicked_static)))
     (updated_blocks (line clicked_static) ! 2) \<and>
   Block_update 2 ((blocks (line clicked_static) ! 2)
       \<lparr>click := click (updated_blocks (line clicked_static) ! 2)\<rparr>)
     \<in> set (new_calls clicked_static (update_status_line example_ext clicked_static)) \<and>
   cleared (click (updated_blocks (line (update_status_line example_ext clicked_static)) ! 2))"
proof -
  have wf: "wf_status (line clicked_static)" by code_simp
  have i2: "2 < num (line clicked_static)" by code_simp
  have c: "c_str (command (blocks (line clicked_static) ! 2)) \<noteq> []" by code_simp
  have n: "need_update (caughtsig clicked_static)
     (time_null example_ext (world (loop_upto example_ext 2 clicked_static)))
     (updated_blocks (line clicked_static) ! 2)"
    by code_simp
  from pass_primes_block [OF wf i2 c n] wf i2 c n show ?thesis by blast
qed

section \<open>Properties of the scheduler loop\<close>

text \<open>
  Notions used to state the properties: the calls that render, a list of calls that runs
  \<^verbatim>\<open>block_update\<close> only for blocks with a command, and a list of calls that renders
  only status lines with the config blocks and the length of a given one.
\<close>


fun is_print :: "call \<Rightarrow> bool" where
  "is_print (Print_status st) = True"
| "is_print (Block_update i b) = False"

definition runs_only_commands :: "block list \<Rightarrow> call list \<Rightarrow> bool" where
  "runs_only_commands bs cs \<longleftrightarrow>
     (\<forall>j arg. Block_update j arg \<in> set cs \<longrightarrow> c_str (command (bs ! j)) \<noteq> [])"

definition prints_whole_line :: "status_line \<Rightarrow> call list \<Rightarrow> bool" where
  "prints_whole_line l cs \<longleftrightarrow>
     (\<forall>st. Print_status st \<in> set cs \<longrightarrow>
        blocks st = blocks l \<and> length (updated_blocks st) = length (updated_blocks l))"

definition example_sched :: "c_ulong sched" where
  "example_sched = \<lparr>caughtsig = 0, line = example_status, world = 1000, calls = []\<rparr>"

definition example_wakeups :: "c_ulong wakeup list" where
  "example_wakeups =
     [\<lparr>elapse = (\<lambda>w. w + 1), signals = [29], unslept = 1, stdin = example_input\<rparr>,
      \<lparr>elapse = (\<lambda>w. w + 2), signals = [], unslept = 0, stdin = []\<rparr>]"

lemma click_loop_length [simp]: "length (click_loop nm inst c is ubs) = length ubs"
  by (induction "is") (simp_all add: Let_def)

lemma handle_click_frame:
  assumes "handle_click ext input s = Some s'"
  shows "blocks (line s') = blocks (line s)" and "caughtsig s' = caughtsig s"
    and "world s' = world s" and "calls s' = calls s"
    and "length (updated_blocks (line s')) = length (updated_blocks (line s))"
  using assms
  by (auto simp: handle_click_def Let_def split: option.splits prod.splits if_splits)

lemma fold_handler_frame [simp]:
  "line (fold handler sigs s) = line s" "calls (fold handler sigs s) = calls s"
  "world (fold handler sigs s) = world s"
  by (induction sigs arbitrary: s) (simp_all add: handler_def)

lemma pass_calls_only_commands:
  "runs_only_commands (blocks (line s))
     (concat (map (\<lambda>i. if dispatched ext i (loop_upto ext i s)
                          then [Block_update i (primed_block i s)] else []) [0..<k]))"
  by (auto simp: runs_only_commands_def dispatched_loop_upto split: if_splits)

lemma cycle_effect:
  assumes "cycle ext wk s = Some s'"
  shows "blocks (line s') = blocks (line s)"
    and "length (updated_blocks (line s')) = length (updated_blocks (line s))"
    and "\<exists>cs. calls s' = calls s @ cs @ [Print_status (line (update_status_line ext s))] \<and>
           runs_only_commands (blocks (line s)) cs \<and> list_all (\<lambda>c. \<not> is_print c) cs"
proof -
  let ?s3 = "fold handler (signals wk)
      ((json_print_status_line (update_status_line ext s))
         \<lparr>world := elapse wk (world (json_print_status_line (update_status_line ext s)))\<rparr>)"
  have s3: "line ?s3 = line (update_status_line ext s)"
    "calls ?s3 = calls (update_status_line ext s) @ [Print_status (line (update_status_line ext s))]"
    by (simp_all add: json_print_status_line_def)
  from assms have "s' = ?s3 \<or> handle_click ext (stdin wk) ?s3 = Some s'"
    by (auto simp: cycle_def Let_def split: if_splits)
  then have f: "line s' = line ?s3 \<or> (blocks (line s') = blocks (line ?s3) \<and>
       length (updated_blocks (line s')) = length (updated_blocks (line ?s3)))"
    and c: "calls s' = calls ?s3"
    using handle_click_frame [of ext "stdin wk" ?s3 s'] by auto
  from f s3(1) show "blocks (line s') = blocks (line s)"
    by (auto simp del: fold_handler_frame)
  from f s3(1) show "length (updated_blocks (line s')) = length (updated_blocks (line s))"
    by (auto simp del: fold_handler_frame)
  let ?cs = "concat (map (\<lambda>i. if dispatched ext i (loop_upto ext i s)
                          then [Block_update i (primed_block i s)] else []) [0..<num (line s)])"
  have "calls s' = calls s @ ?cs @ [Print_status (line (update_status_line ext s))]"
    using c s3(2) by (simp add: loop_upto_calls)
  moreover have "runs_only_commands (blocks (line s)) ?cs"
    by (rule pass_calls_only_commands)
  moreover have "list_all (\<lambda>c. \<not> is_print c) ?cs"
    by (auto simp: list_all_iff split: if_splits)
  ultimately show "\<exists>cs. calls s' = calls s @ cs @ [Print_status (line (update_status_line ext s))] \<and>
           runs_only_commands (blocks (line s)) cs \<and> list_all (\<lambda>c. \<not> is_print c) cs"
    by blast
qed

lemma filter_is_print_none: "list_all (\<lambda>c. \<not> is_print c) cs \<Longrightarrow> filter is_print cs = []"
  by (induction cs) simp_all

lemma sched_loop_effect:
  "sched_loop ext wks s = Some s' \<Longrightarrow>
   blocks (line s') = blocks (line s) \<and>
   length (updated_blocks (line s')) = length (updated_blocks (line s)) \<and>
   (\<exists>cs. calls s' = calls s @ cs \<and> runs_only_commands (blocks (line s)) cs \<and>
      length (filter is_print cs) = length wks \<and> prints_whole_line (line s) cs)"
proof (induction wks arbitrary: s)
  case Nil
  then show ?case by (simp add: runs_only_commands_def prints_whole_line_def)
next
  case (Cons wk wks)
  from Cons.prems obtain s1 where s1: "cycle ext wk s = Some s1" and r: "sched_loop ext wks s1 = Some s'"
    by (auto split: option.splits)
  from cycle_effect [OF s1] obtain cs1 where
    b1: "blocks (line s1) = blocks (line s)" and
    l1: "length (updated_blocks (line s1)) = length (updated_blocks (line s))" and
    c1: "calls s1 = calls s @ cs1 @ [Print_status (line (update_status_line ext s))]" and
    o1: "runs_only_commands (blocks (line s)) cs1" and n1: "list_all (\<lambda>c. \<not> is_print c) cs1"
    by blast
  from Cons.IH [OF r] obtain cs2 where
    b2: "blocks (line s') = blocks (line s1)" and
    l2: "length (updated_blocks (line s')) = length (updated_blocks (line s1))" and
    c2: "calls s' = calls s1 @ cs2" and
    o2: "runs_only_commands (blocks (line s1)) cs2" and
    n2: "length (filter is_print cs2) = length wks" and
    p2: "prints_whole_line (line s1) cs2"
    by blast
  let ?cs = "cs1 @ [Print_status (line (update_status_line ext s))] @ cs2"
  have "calls s' = calls s @ ?cs" using c1 c2 by simp
  moreover have "runs_only_commands (blocks (line s)) ?cs"
    using o1 o2 b1 by (auto simp: runs_only_commands_def)
  moreover have "length (filter is_print ?cs) = length (wk # wks)"
    using n2 filter_is_print_none [OF n1] by simp
  moreover have "prints_whole_line (line s) ?cs"
    using p2 n1 b1 l1 by (auto simp: prints_whole_line_def list_all_iff)
  ultimately show ?case using b1 b2 l1 l2 by auto
qed

text \<open>
  C7: in a run of any number of turns of the loop, from a status line whose two arrays
  have the same length, \<^verbatim>\<open>block_update\<close> is never called for a block whose configured
  command is empty, whatever its \<open>last_update\<close>, its interval, the signals and the
  clicks; each turn renders once, and every rendered status line has the config blocks
  and contains the block.
\<close>


theorem static_never_updated:
  assumes "sched_loop ext wks s = Some s'" and "wf_status (line s)" and "i < num (line s)"
    and "c_str (command (blocks (line s) ! i)) = []"
  shows "(\<forall>arg. Block_update i arg \<notin> set (new_calls s s')) \<and>
         length (filter is_print (new_calls s s')) = length wks \<and>
         (\<forall>st. Print_status st \<in> set (new_calls s s') \<longrightarrow>
            blocks st = blocks (line s) \<and> i < length (updated_blocks st))"
proof -
  from sched_loop_effect [OF assms(1)] obtain cs where
    c: "calls s' = calls s @ cs" and o: "runs_only_commands (blocks (line s)) cs" and
    n: "length (filter is_print cs) = length wks" and p: "prints_whole_line (line s) cs"
    by blast
  have nc: "new_calls s s' = cs" by (simp add: new_calls_def c)
  have "\<forall>arg. Block_update i arg \<notin> set cs"
    using o assms(4) by (auto simp: runs_only_commands_def)
  moreover have "\<forall>st. Print_status st \<in> set cs \<longrightarrow>
            blocks st = blocks (line s) \<and> i < length (updated_blocks st)"
    using p assms(2,3) by (auto simp: prints_whole_line_def wf_status_def)
  ultimately show ?thesis using n by (simp add: nc)
qed

theorem static_never_updated_witness:
  "wf_status (line example_sched) \<and> 3 < num (line example_sched) \<and>
   c_str (command (blocks (line example_sched) ! 3)) = [] \<and>
   (\<exists>s'. sched_loop example_ext example_wakeups example_sched = Some s' \<and>
      (\<forall>arg. Block_update 3 arg \<notin> set (new_calls example_sched s')) \<and>
      length (filter is_print (new_calls example_sched s')) = 2)"
proof -
  have wf: "wf_status (line example_sched)" by code_simp
  have i: "3 < num (line example_sched)" by code_simp
  have c: "c_str (command (blocks (line example_sched) ! 3)) = []" by code_simp
  have "sched_loop example_ext example_wakeups example_sched \<noteq> None" by code_simp
  then obtain s' where r: "sched_loop example_ext example_wakeups example_sched = Some s'"
    by blast
  have l: "length example_wakeups = 2" by (simp add: example_wakeups_def)
  from static_never_updated [OF r wf i c] l r wf i c show ?thesis by simp
qed

text \<open>
  C10: a pass of \<^verbatim>\<open>update_status_line\<close>, a call of \<^verbatim>\<open>handle_click\<close>, a turn of the loop and
  a run of any number of turns after \<^verbatim>\<open>longest_sleep\<close> leave the array of config blocks
  as it was; \<^verbatim>\<open>longest_sleep\<close> itself returns a number and writes nothing.
\<close>


theorem config_blocks_unchanged:
  "blocks (line (update_status_line ext s)) = blocks (line s) \<and>
   (handle_click ext input s = Some s1 \<longrightarrow> blocks (line s1) = blocks (line s)) \<and>
   (cycle ext wk s = Some s2 \<longrightarrow> blocks (line s2) = blocks (line s)) \<and>
   (sched_loop ext wks s = Some s3 \<longrightarrow> blocks (line s3) = blocks (line s)) \<and>
   (sched_start ext wks s = Some (t, s4) \<longrightarrow> blocks (line s4) = blocks (line s))"
proof -
  have "sched_start ext wks s = Some (t, s4) \<Longrightarrow> sched_loop ext wks s = Some s4"
    by (auto simp: sched_start_def split: option.splits)
  then show ?thesis
    using handle_click_frame(1) [of ext input s s1] cycle_effect(1) [of ext wk s s2]
      sched_loop_effect [of ext wks s s3] sched_loop_effect [of ext wks s s4]
    by auto
qed

theorem config_blocks_unchanged_witness:
  "blocks (line (update_status_line example_ext example_sched)) = example_config \<and>
   (\<exists>s'. sched_start example_ext example_wakeups example_sched = Some (2, s') \<and>
      blocks (line s') = example_config \<and>
      updated_blocks (line s') \<noteq> updated_blocks (line example_sched))"
proof -
  have b: "blocks (line example_sched) = example_config"
    by (simp add: example_sched_def example_status_def)
  have "map_option fst (sched_start example_ext example_wakeups example_sched) = Some 2"
    by code_simp
  then obtain s' where r: "sched_start example_ext example_wakeups example_sched = Some (2, s')"
    by auto
  have "map_option (\<lambda>p. updated_blocks (line (snd p)) \<noteq> updated_blocks (line example_sched))
          (sched_start example_ext example_wakeups example_sched) = Some True"
    by code_simp
  with r have u: "updated_blocks (line s') \<noteq> updated_blocks (line example_sched)" by simp
  from config_blocks_unchanged [of example_ext example_sched _ _ _ _ example_wakeups _ 2 s']
    r b u show ?thesis by auto
qed

lemma usl_caughtsig:
  "0 \<le> sint (caughtsig s) \<Longrightarrow> caughtsig (update_status_line ext s) = 0"
  by (auto simp: update_status_line_loop word_sless_alt signed_eq_0_iff order_less_le)

text \<open>
  Signal numbers are positive. The states and sleeps of the concrete checks: every
  block has run at the time 1000, and two signals arrive during one sleep.
\<close>

definition signal_numbers :: "c_int list \<Rightarrow> bool" where
  "signal_numbers sigs \<longleftrightarrow> list_all (\<lambda>g. 0 <s g) sigs"

definition settled_sched :: "c_ulong sched" where
  "settled_sched =
     \<lparr>caughtsig = 0,
      line = \<lparr>blocks = example_config,
              updated_blocks = map (\<lambda>b. b\<lparr>last_update := 1000\<rparr>) example_config\<rparr>,
      world = 1000, calls = []\<rparr>"

definition lost_signal_wakeups :: "c_ulong wakeup list" where
  "lost_signal_wakeups =
     [\<lparr>elapse = (\<lambda>w. w), signals = [10, 12], unslept = 1, stdin = []\<rparr>,
      \<lparr>elapse = (\<lambda>w. w), signals = [], unslept = 0, stdin = []\<rparr>]"

definition signaled_sched :: "c_ulong sched" where
  "signaled_sched = settled_sched\<lparr>caughtsig := 10\<rparr>"

definition late_signal :: "nat \<Rightarrow> c_int list" where
  "late_signal i = (if i = 4 then [12] else [])"

lemma fold_handler_caughtsig:
  "caughtsig (fold handler sigs s) = (if sigs = [] then caughtsig s else last sigs)"
  by (induction sigs arbitrary: s) (simp_all add: handler_def)

lemma fold_handler_nonneg:
  "0 \<le> sint (caughtsig s) \<Longrightarrow> signal_numbers sigs \<Longrightarrow>
   0 \<le> sint (caughtsig (fold handler sigs s))"
  by (cases "sigs = []")
     (auto simp: fold_handler_caughtsig signal_numbers_def list_all_iff word_sless_alt
       dest!: last_in_set)

lemma update_status_line_async_none:
  "update_status_line_async ext (\<lambda>i. []) s = update_status_line ext s"
proof -
  have "update_block_async ext (\<lambda>i. []) = update_block ext"
    by (rule ext) (simp add: update_block_async_def fun_eq_iff)
  then show ?thesis
    by (simp add: update_status_line_async_def update_status_line_def)
qed

lemma async_loop_nonneg:
  "0 \<le> sint (caughtsig s) \<Longrightarrow> (\<And>i. signal_numbers (sigs i)) \<Longrightarrow>
   0 \<le> sint (caughtsig (fold (update_block_async ext sigs) is s))"
proof (induction "is" arbitrary: s)
  case Nil
  then show ?case by simp
next
  case (Cons i "is")
  have "0 \<le> sint (caughtsig (update_block_async ext sigs i s))"
    using Cons.prems by (simp add: update_block_async_def fold_handler_nonneg)
  from Cons.IH [OF this Cons.prems(2)] show ?case by simp
qed

lemma reset_nonneg:
  "0 \<le> sint (caughtsig t) \<Longrightarrow>
   caughtsig (if 0 <s caughtsig t then t\<lparr>caughtsig := 0\<rparr> else t) = 0"
  by (auto simp: word_sless_alt signed_eq_0_iff order_less_le)

lemma update_status_line_async_caughtsig:
  assumes "0 \<le> sint (caughtsig s)" and "\<And>i. signal_numbers (sigs i)"
  shows "caughtsig (update_status_line_async ext sigs s) = 0"
proof -
  let ?s' = "fold (update_block_async ext sigs) [0..<num (line s)] s"
  have "0 \<le> sint (caughtsig ?s')" using assms by (rule async_loop_nonneg)
  then have "0 \<le> sint (caughtsig (fold handler (sigs (num (line s))) ?s'))"
    using assms(2) by (rule fold_handler_nonneg)
  then show ?thesis
    unfolding update_status_line_async_def Let_def by (rule reset_nonneg)
qed

lemma applied_in_pass:
  assumes "i < num (line s)" and "c_str (command (blocks (line s) ! i)) \<noteq> []"
    and "caughtsig s \<noteq> 0" and "signal (updated_blocks (line s) ! i) = caughtsig s"
  shows "Block_update i (primed_block i s) \<in> set (new_calls s (update_status_line ext s))"
proof -
  have "need_update (caughtsig s) (time_null ext (world (loop_upto ext i s)))
          (updated_blocks (line s) ! i)"
    using assms(3,4) by (simp add: need_update_def signaled_def)
  with assms(2) have d: "dispatched ext i (loop_upto ext i s)"
    by (simp add: dispatched_loop_upto)
  have "new_calls s (update_status_line ext s) =
     concat (map (\<lambda>i. if dispatched ext i (loop_upto ext i s)
                                then [Block_update i (primed_block i s)] else []) [0..<num (line s)])"
    by (simp add: new_calls_def loop_upto_calls)
  with d assms(1) show ?thesis by auto
qed

lemma cycle_caughtsig:
  assumes "0 \<le> sint (caughtsig s)" and "cycle ext wk s = Some s'"
  shows "caughtsig s' = (if signals wk = [] then 0 else last (signals wk))"
proof -
  let ?s2 = "(json_print_status_line (update_status_line ext s))
         \<lparr>world := elapse wk (world (json_print_status_line (update_status_line ext s)))\<rparr>"
  let ?s3 = "fold handler (signals wk) ?s2"
  have "caughtsig ?s2 = 0"
    using usl_caughtsig [OF assms(1), of ext] by (simp add: json_print_status_line_def)
  then have s3: "caughtsig ?s3 = (if signals wk = [] then 0 else last (signals wk))"
    by (simp add: fold_handler_caughtsig)
  from assms(2) have "s' = ?s3 \<or> handle_click ext (stdin wk) ?s3 = Some s'"
    by (auto simp: cycle_def Let_def split: if_splits)
  then have "caughtsig s' = caughtsig ?s3"
    using handle_click_frame(2) [of ext "stdin wk" ?s3 s'] by auto
  with s3 show ?thesis by simp
qed

text \<open>
  A signal that arrives during a pass, after the loop and before the final test, is
  reset without having been compared with any block.
\<close>

lemma signal_before_reset_discarded:
  "caughtsig (update_status_line_async example_ext late_signal settled_sched) = 0 \<and>
   calls (update_status_line_async example_ext late_signal settled_sched) = []"
  by code_simp

text \<open>
  C8, as the claim states it, fails when two signals arrive during one sleep: the block
  2 has a command and the signal 10, every block has run and none is outdated; the
  signals 10 and 12 arrive, in this order, during the first sleep; in the two turns of the
  loop \<^verbatim>\<open>block_update\<close> is never called, so the signal 10 has had an influence on the
  decisions of no turn.
\<close>

theorem lost_signal_counterexample:
  "c_str (command (blocks (line settled_sched) ! 2)) = ''vol.sh'' \<and>
   signal (updated_blocks (line settled_sched) ! 2) = 10 \<and>
   signals (lost_signal_wakeups ! 0) = [10, 12] \<and>
   map_option (\<lambda>s'. (caughtsig s', filter (\<lambda>c. \<not> is_print c) (calls s')))
     (sched_loop example_ext lost_signal_wakeups settled_sched) = Some (0, [])"
  by code_simp

text \<open>
  C8, amended: when \<^verbatim>\<open>caughtsig\<close> is 0 or a signal number at the start of a pass, it is
  0 when the pass returns, also when signals arrive during the pass, at the points of
  \<open>update_status_line_async\<close>; with this value neither \<open>signaled\<close> nor \<open>clicked\<close>
  holds for any block. The value with which the next pass starts is the last signal that
  arrived after the reset, or 0 when none did: the value of one pass is never applied to
  a second pass, and of several signals that arrive before a pass only the last is
  applied. In a pass during which no signal arrives, every block that has a command and
  whose signal is the value of \<^verbatim>\<open>caughtsig\<close>, not 0, at the start is given to
  \<^verbatim>\<open>block_update\<close>.
\<close>

theorem pass_resets_caughtsig:
  assumes "0 \<le> sint (caughtsig s)" and "\<forall>i. signal_numbers (sigs i)"
  shows "caughtsig (update_status_line_async ext sigs s) = 0 \<and>
         update_status_line_async ext (\<lambda>i. []) s = update_status_line ext s \<and>
         \<not> signaled (caughtsig (update_status_line_async ext sigs s)) b \<and>
         \<not> clicked (caughtsig (update_status_line_async ext sigs s)) b \<and>
         caughtsig (fold handler later (update_status_line_async ext sigs s))
           = (if later = [] then 0 else last later) \<and>
         (cycle ext wk s = Some s' \<longrightarrow>
            caughtsig s' = (if signals wk = [] then 0 else last (signals wk))) \<and>
         (\<forall>i<num (line s).
            c_str (command (blocks (line s) ! i)) \<noteq> [] \<and> caughtsig s \<noteq> 0 \<and>
            signal (updated_blocks (line s) ! i) = caughtsig s \<longrightarrow>
              Block_update i ((blocks (line s) ! i)\<lparr>click := click (updated_blocks (line s) ! i)\<rparr>)
                \<in> set (new_calls s (update_status_line ext s)))"
proof -
  have z: "caughtsig (update_status_line_async ext sigs s) = 0"
    using assms by (simp add: update_status_line_async_caughtsig)
  have l: "caughtsig (fold handler later (update_status_line_async ext sigs s))
           = (if later = [] then 0 else last later)"
    by (simp add: fold_handler_caughtsig z)
  have c: "cycle ext wk s = Some s' \<longrightarrow>
            caughtsig s' = (if signals wk = [] then 0 else last (signals wk))"
    using cycle_caughtsig [OF assms(1), of ext wk s'] by blast
  have a: "\<forall>i<num (line s).
            c_str (command (blocks (line s) ! i)) \<noteq> [] \<and> caughtsig s \<noteq> 0 \<and>
            signal (updated_blocks (line s) ! i) = caughtsig s \<longrightarrow>
              Block_update i ((blocks (line s) ! i)\<lparr>click := click (updated_blocks (line s) ! i)\<rparr>)
                \<in> set (new_calls s (update_status_line ext s))"
    using applied_in_pass [of _ s ext] unfolding primed_block_def by blast
  from z l c a show ?thesis
    by (simp add: update_status_line_async_none signaled_def clicked_def)
qed

theorem pass_resets_caughtsig_witness:
  "0 \<le> sint (caughtsig signaled_sched) \<and> signal_numbers (late_signal 4) \<and>
   caughtsig signaled_sched = 10 \<and>
   caughtsig (update_status_line_async example_ext late_signal signaled_sched) = 0 \<and>
   caughtsig (fold handler [10, 12] (update_status_line_async example_ext late_signal signaled_sched))
     = 12 \<and>
   map_option caughtsig (cycle example_ext (lost_signal_wakeups ! 0) signaled_sched) = Some 12 \<and>
   Block_update 2 ((blocks (line signaled_sched) ! 2)
       \<lparr>click := click (updated_blocks (line signaled_sched) ! 2)\<rparr>)
     \<in> set (new_calls signaled_sched (update_status_line example_ext signaled_sched))"
proof -
  have h: "0 \<le> sint (caughtsig signaled_sched)" by code_simp
  have g: "\<forall>i. signal_numbers (late_signal i)"
    by (simp add: late_signal_def signal_numbers_def word_sless_alt)
  have v: "caughtsig signaled_sched = 10" by code_simp
  have w: "signals (lost_signal_wakeups ! 0) = [10, 12]" by code_simp
  have "cycle example_ext (lost_signal_wakeups ! 0) signaled_sched \<noteq> None" by code_simp
  then obtain s' where c: "cycle example_ext (lost_signal_wakeups ! 0) signaled_sched = Some s'"
    by blast
  have p: "2 < num (line signaled_sched) \<and>
     c_str (command (blocks (line signaled_sched) ! 2)) \<noteq> [] \<and> caughtsig signaled_sched \<noteq> 0 \<and>
     signal (updated_blocks (line signaled_sched) ! 2) = caughtsig signaled_sched"
    by code_simp
  note t = pass_resets_caughtsig [OF h g, where ext = example_ext and later = "[10, 12]"
      and wk = "lost_signal_wakeups ! 0" and s' = s']
  from t have a: "caughtsig (update_status_line_async example_ext late_signal signaled_sched) = 0"
    by blast
  from t have l: "caughtsig (fold handler [10, 12]
      (update_status_line_async example_ext late_signal signaled_sched)) = 12"
    by simp
  from t c w have y: "caughtsig s' = 12" by simp
  from t p have d: "Block_update 2 ((blocks (line signaled_sched) ! 2)
       \<lparr>click := click (updated_blocks (line signaled_sched) ! 2)\<rparr>)
     \<in> set (new_calls signaled_sched (update_status_line example_ext signaled_sched))"
    by blast
  from h g v a l c y d show ?thesis by simp
qed

section \<open>Properties of \<^verbatim>\<open>parse_click\<close>\<close>

text \<open>
  Notions used to state the properties: a span that lies inside the buffer, as
  \<^verbatim>\<open>json_parse\<close> is to return it; an array that has a size that \<^verbatim>\<open>sizeof\<close> can
  return and is not 0; and what copying a span into a zeroed array gives: the first
  bytes of the span, at most the capacity minus one, then zeros up to the capacity.
\<close>


definition span_ok :: "string \<Rightarrow> c_int \<times> c_int \<Rightarrow> bool" where
  "span_ok json sp \<longleftrightarrow>
     0 \<le> sint (fst sp) \<and> 0 \<le> sint (snd sp) \<and> sint (fst sp) + sint (snd sp) < int (length json)"

definition copied :: "string \<Rightarrow> string \<Rightarrow> string \<Rightarrow> c_int \<times> c_int \<Rightarrow> bool" where
  "copied dst dst' src sp \<longleftrightarrow>
     (let n = min (nat (sint (snd sp))) (length dst - 1)
      in dst' = take n (drop (nat (sint (fst sp))) src) @ replicate (length dst - n) (CHR 0x00))"

definition cap_ok :: "string \<Rightarrow> bool" where
  "cap_ok dst \<longleftrightarrow> 1 \<le> length dst \<and> length dst < 2 ^ 64"

definition long_input :: string where
  \<open>long_input = '',{"name":"vol","instance":"","button":"1","x":"123456","y":"20"}''\<close>

definition zero_click :: click where
  "zero_click = \<lparr>button = replicate 2 (CHR 0x00), x = replicate 5 (CHR 0x00),
     y = replicate 5 (CHR 0x00)\<rparr>"

definition long_json_parse :: "string \<Rightarrow> string \<Rightarrow> c_int \<times> c_int" where
  "long_json_parse json key =
     (if key = ''name'' then (10, 3)
      else if key = ''instance'' then (27, 0)
      else if key = ''button'' then (39, 1)
      else if key = ''x'' then (47, 6)
      else if key = ''y'' then (60, 2)
      else (0, 0))"

lemma unat_of_nat_pred_le:
  assumes "1 \<le> cap"
  shows "unat (of_nat cap - 1 :: c_ulong) \<le> cap - 1"
proof -
  from assms have "(of_nat cap - 1 :: c_ulong) = of_nat (cap - 1)" by simp
  then have "unat (of_nat cap - 1 :: c_ulong) = unat (of_nat (cap - 1) :: c_ulong)" by simp
  also have "\<dots> \<le> cap - 1" by (simp add: unat_of_nat)
  finally show ?thesis .
qed

lemma MIN_len_le: "1 \<le> cap \<Longrightarrow> MIN_len len cap \<le> cap - 1"
proof -
  assume c: "1 \<le> cap"
  let ?a = "scast len :: c_ulong" and ?b = "of_nat cap - 1 :: c_ulong"
  have "unat (if ?a < ?b then ?a else ?b) \<le> unat ?b"
    by (simp add: word_less_nat_alt)
  with unat_of_nat_pred_le [OF c] show ?thesis
    by (simp add: MIN_len_def Let_def del: of_nat_diff)
qed

lemma unat_scast_nonneg:
  assumes "0 \<le> sint (len :: c_int)"
  shows "unat (scast len :: c_ulong) = nat (sint len)"
proof -
  have hi: "sint len < 2 ^ 31" using sint_lt [of len] by simp
  have s: "sint (scast len :: c_ulong) = sint len"
    by (rule sint_up_scast) (simp add: is_up)
  have "uint (scast len :: c_ulong) = take_bit 64 (sint (scast len :: c_ulong))"
    using uint_sint [of "scast len :: c_ulong"] by simp
  also have "\<dots> = sint len mod 2 ^ 64" by (simp only: s take_bit_eq_mod)
  also have "\<dots> = sint len" using assms hi by (simp add: mod_pos_pos_trivial)
  finally show ?thesis by (simp add: unat_eq_nat_uint)
qed

lemma unat_of_nat_pred:
  assumes "cap_ok dst"
  shows "unat (of_nat (length dst) - 1 :: c_ulong) = length dst - 1"
proof -
  from assms have l: "length dst mod 2 ^ 64 = length dst" by (simp add: cap_ok_def)
  have u: "unat (of_nat (length dst) :: c_ulong) = length dst"
    using unat_of_nat [where 'a = 64, of "length dst"] l by simp
  with assms have nz: "(of_nat (length dst) :: c_ulong) \<noteq> 0"
    by (auto simp: cap_ok_def)
  from unat_minus_one [OF nz] u show ?thesis by simp
qed

lemma MIN_len_min:
  assumes "0 \<le> sint len" and "cap_ok dst"
  shows "MIN_len len (length dst) = min (nat (sint len)) (length dst - 1)"
proof -
  let ?a = "scast len :: c_ulong" and ?b = "of_nat (length dst) - 1 :: c_ulong"
  have a: "unat ?a = nat (sint len)" using assms(1) by (rule unat_scast_nonneg)
  have b: "unat ?b = length dst - 1" using assms(2) by (rule unat_of_nat_pred)
  have "unat (if ?a < ?b then ?a else ?b) = min (unat ?a) (unat ?b)"
    by (simp add: word_less_nat_alt min_def)
  then show ?thesis by (simp only: MIN_len_def Let_def a b)
qed

lemma poke_nul_ok:
  "0 \<le> i \<Longrightarrow> i < int (length buf) \<Longrightarrow> \<exists>buf'. poke_nul buf i = Some buf' \<and> length buf' = length buf"
  by (simp add: poke_nul_def)

lemma poke_nul_length: "poke_nul buf i = Some buf' \<Longrightarrow> length buf' = length buf"
  by (auto simp: poke_nul_def split: if_splits)

lemma memcpy_from_copied:
  assumes "cap_ok dst" and "list_all (\<lambda>k. k = CHR 0x00) dst" and "span_ok src sp"
  shows "\<exists>dst'. memcpy_from dst src (sint (fst sp)) (MIN_len (snd sp) (length dst)) = Some dst'
           \<and> copied dst dst' src sp"
proof -
  let ?n = "min (nat (sint (snd sp))) (length dst - 1)"
  have n: "MIN_len (snd sp) (length dst) = ?n"
    using assms(1,3) by (simp add: MIN_len_min span_ok_def)
  have r: "nat (sint (fst sp)) + ?n \<le> length src" "?n \<le> length dst" "0 \<le> sint (fst sp)"
    using assms(1,3) by (auto simp: span_ok_def cap_ok_def)
  have z: "drop ?n dst = replicate (length dst - ?n) (CHR 0x00)"
  proof -
    from assms(2) have "dst = replicate (length dst) (CHR 0x00)"
      by (simp add: list_all_iff replicate_length_same)
    then have "drop ?n dst = drop ?n (replicate (length dst) (CHR 0x00))" by simp
    then show ?thesis by simp
  qed
  show ?thesis
    using r z by (simp add: n memcpy_from_def copied_def Let_def)
qed


lemma span_ok_length: "length buf' = length buf \<Longrightarrow> span_ok buf' sp = span_ok buf sp"
  by (simp add: span_ok_def)

lemma memcpy_from_length: "memcpy_from dst src off n = Some dst' \<Longrightarrow> length dst' = length dst"
  by (auto simp: memcpy_from_def split: if_splits)

lemma c_str_append_nul:
  "0 < k \<Longrightarrow> length (c_str (a @ replicate k (CHR 0x00))) \<le> length a"
proof -
  assume k: "0 < k"
  show ?thesis
  proof (cases "\<forall>e\<in>set a. e \<noteq> CHR 0x00")
    case True
    have "takeWhile (\<lambda>e. e \<noteq> CHR 0x00) (replicate k (CHR 0x00)) = []"
      using k by (cases k) simp_all
    with True show ?thesis by (simp add: c_str_def)
  next
    case False
    then obtain e where "e \<in> set a" "\<not> e \<noteq> CHR 0x00" by blast
    then have "takeWhile (\<lambda>e. e \<noteq> CHR 0x00) (a @ replicate k (CHR 0x00))
        = takeWhile (\<lambda>e. e \<noteq> CHR 0x00) a"
      by (rule takeWhile_append1)
    then show ?thesis by (simp add: c_str_def length_takeWhile_le)
  qed
qed

lemma copied_fits:
  assumes "cap_ok dst" and "copied dst dst' src sp"
  shows "length dst' \<le> length dst" and "length (c_str dst') < length dst"
proof -
  define n where "n = min (nat (sint (snd sp))) (length dst - 1)"
  define a where "a = take n (drop (nat (sint (fst sp))) src)"
  from assms(2) have d: "dst' = a @ replicate (length dst - n) (CHR 0x00)"
    by (simp add: copied_def Let_def n_def a_def)
  have la: "length a \<le> n" by (simp only: a_def length_take min.cobounded2)
  have n: "n < length dst" using assms(1) by (auto simp: cap_ok_def min_def n_def)
  from d have "length dst' = length a + (length dst - n)" by simp
  with la n show "length dst' \<le> length dst" by linarith
  from n have "0 < length dst - n" by simp
  then have "length (c_str (a @ replicate (length dst - n) (CHR 0x00))) \<le> length a"
    by (rule c_str_append_nul)
  with d la n show "length (c_str dst') < length dst" by simp
qed

lemma parse_click_copies:
  assumes caps: "cap_ok (button c)" "cap_ok (x c)" "cap_ok (y c)"
    and zero: "cleared c"
    and spans: "span_ok json (jp json ''y'')" "span_ok json (jp json ''x'')"
      "span_ok json (jp json ''button'')" "span_ok json (jp json ''instance'')"
      "span_ok json (jp json ''name'')"
  shows "\<exists>json' c'.
     parse_click jp json c
       = Some (json', sint (fst (jp json ''name'')), sint (fst (jp json ''instance'')), c') \<and>
     length json' = length json \<and>
     copied (button c) (button c') json' (jp json ''button'') \<and>
     copied (x c) (x c') json' (jp json ''x'') \<and>
     copied (y c) (y c') json' (jp json ''y'') \<and>
     length (button c') = length (button c) \<and> length (c_str (button c')) < length (button c) \<and>
     length (x c') = length (x c) \<and> length (c_str (x c')) < length (x c) \<and>
     length (y c') = length (y c) \<and> length (c_str (y c')) < length (y c)"
proof -
  obtain yst ylen where y: "jp json ''y'' = (yst, ylen)" by (cases "jp json ''y''")
  obtain xst xlen where x: "jp json ''x'' = (xst, xlen)" by (cases "jp json ''x''")
  obtain bst blen where b: "jp json ''button'' = (bst, blen)" by (cases "jp json ''button''")
  obtain ist ilen where i: "jp json ''instance'' = (ist, ilen)" by (cases "jp json ''instance''")
  obtain nst nlen where n: "jp json ''name'' = (nst, nlen)" by (cases "jp json ''name''")
  from spans(5) n have r5: "0 \<le> sint nst + sint nlen" "sint nst + sint nlen < int (length json)"
    by (simp_all add: span_ok_def)
  from poke_nul_ok [OF r5] obtain json1 where
    j1: "poke_nul json (sint nst + sint nlen) = Some json1" "length json1 = length json"
    by blast
  from spans(4) i j1(2) have r4: "0 \<le> sint ist + sint ilen" "sint ist + sint ilen < int (length json1)"
    by (simp_all add: span_ok_def)
  from poke_nul_ok [OF r4] obtain json2 where
    j2: "poke_nul json1 (sint ist + sint ilen) = Some json2" "length json2 = length json1"
    by blast
  have l2: "length json2 = length json" using j1(2) j2(2) by simp
  from zero have z: "list_all (\<lambda>k. k = CHR 0x00) (button c)" "list_all (\<lambda>k. k = CHR 0x00) (x c)"
    "list_all (\<lambda>k. k = CHR 0x00) (y c)"
    by (simp_all add: cleared_def)
  have sb: "span_ok json2 (bst, blen)" using spans(3) b by (simp add: span_ok_length [OF l2])
  have sx: "span_ok json2 (xst, xlen)" using spans(2) x by (simp add: span_ok_length [OF l2])
  have sy: "span_ok json2 (yst, ylen)" using spans(1) y by (simp add: span_ok_length [OF l2])
  from memcpy_from_copied [OF caps(1) z(1) sb]
  have "\<exists>cb. memcpy_from (button c) json2 (sint bst) (MIN_len blen (length (button c))) = Some cb
          \<and> copied (button c) cb json2 (bst, blen)"
    by simp
  then obtain cb where
    cb: "memcpy_from (button c) json2 (sint bst) (MIN_len blen (length (button c))) = Some cb"
    "copied (button c) cb json2 (bst, blen)"
    by blast
  from memcpy_from_copied [OF caps(2) z(2) sx]
  have "\<exists>cx. memcpy_from (x c) json2 (sint xst) (MIN_len xlen (length (x c))) = Some cx
          \<and> copied (x c) cx json2 (xst, xlen)"
    by simp
  then obtain cx where
    cx: "memcpy_from (x c) json2 (sint xst) (MIN_len xlen (length (x c))) = Some cx"
    "copied (x c) cx json2 (xst, xlen)"
    by blast
  from memcpy_from_copied [OF caps(3) z(3) sy]
  have "\<exists>cy. memcpy_from (y c) json2 (sint yst) (MIN_len ylen (length (y c))) = Some cy
          \<and> copied (y c) cy json2 (yst, ylen)"
    by simp
  then obtain cy where
    cy: "memcpy_from (y c) json2 (sint yst) (MIN_len ylen (length (y c))) = Some cy"
    "copied (y c) cy json2 (yst, ylen)"
    by blast
  have p: "parse_click jp json c = Some (json2, sint nst, sint ist, \<lparr>button = cb, x = cx, y = cy\<rparr>)"
    by (simp add: parse_click_def y x b i n j1(1) j2(1) cb(1) cx(1) cy(1))
  show ?thesis
    using p l2 cb(2) cx(2) cy(2) copied_fits(2) [OF caps(1) cb(2)] copied_fits(2) [OF caps(2) cx(2)]
      copied_fits(2) [OF caps(3) cy(2)] memcpy_from_length [OF cb(1)] memcpy_from_length [OF cx(1)]
      memcpy_from_length [OF cy(1)]
    by (simp add: y x b i n)
qed


lemma memcpy_from_bounded:
  assumes "1 \<le> length dst" and "list_all (\<lambda>k. k = CHR 0x00) dst"
    and "memcpy_from dst src off (MIN_len len (length dst)) = Some dst'"
  shows "length dst' = length dst \<and> length (c_str dst') < length dst"
proof -
  define n where "n = MIN_len len (length dst)"
  define a where "a = take n (drop (nat off) src)"
  have n: "n \<le> length dst - 1" unfolding n_def using assms(1) by (rule MIN_len_le)
  from assms(2) have "dst = replicate (length dst) (CHR 0x00)"
    by (simp add: list_all_iff replicate_length_same)
  then have "drop n dst = drop n (replicate (length dst) (CHR 0x00))" by simp
  then have z: "drop n dst = replicate (length dst - n) (CHR 0x00)" by simp
  from assms(3) have d: "dst' = a @ drop n dst"
    by (auto simp: memcpy_from_def n_def a_def split: if_splits)
  have la: "length a \<le> n" by (simp only: a_def length_take min.cobounded2)
  from n assms(1) have "0 < length dst - n" by linarith
  then have "length (c_str (a @ replicate (length dst - n) (CHR 0x00))) \<le> length a"
    by (rule c_str_append_nul)
  with d z la n assms(1) have "length (c_str dst') < length dst" by simp
  with memcpy_from_length [OF assms(3)] show ?thesis by simp
qed

lemma parse_click_bounded:
  assumes "cap_ok (button c)" "cap_ok (x c)" "cap_ok (y c)" and "cleared c"
    and "parse_click jp json c = Some (json', np, ip, c')"
  shows "length (button c') = length (button c) \<and> length (c_str (button c')) < length (button c) \<and>
     length (x c') = length (x c) \<and> length (c_str (x c')) < length (x c) \<and>
     length (y c') = length (y c) \<and> length (c_str (y c')) < length (y c)"
proof -
  from assms(5) obtain json2 bst blen xst xlen yst ylen cb cx cy where
    m: "memcpy_from (button c) json2 bst (MIN_len blen (length (button c))) = Some cb"
       "memcpy_from (x c) json2 xst (MIN_len xlen (length (x c))) = Some cx"
       "memcpy_from (y c) json2 yst (MIN_len ylen (length (y c))) = Some cy"
    and c': "c' = \<lparr>button = cb, x = cx, y = cy\<rparr>"
    by (auto simp: parse_click_def split: prod.splits option.splits)
  from assms(1-4) have
    h: "1 \<le> length (button c)" "list_all (\<lambda>k. k = CHR 0x00) (button c)"
       "1 \<le> length (x c)" "list_all (\<lambda>k. k = CHR 0x00) (x c)"
       "1 \<le> length (y c)" "list_all (\<lambda>k. k = CHR 0x00) (y c)"
    by (simp_all add: cap_ok_def cleared_def)
  from memcpy_from_bounded [OF h(1,2) m(1)] memcpy_from_bounded [OF h(3,4) m(2)]
    memcpy_from_bounded [OF h(5,6) m(3)]
  show ?thesis by (simp add: c')
qed

text \<open>
  C9: for every buffer and every answer of \<^verbatim>\<open>json_parse\<close>, when \<^verbatim>\<open>parse_click\<close> returns,
  each of the three arrays of the click, zeroed before the call, has kept its size and
  holds a text shorter than its capacity, so it ends with a terminator. When the spans
  that \<^verbatim>\<open>json_parse\<close> returns lie inside the buffer, \<^verbatim>\<open>parse_click\<close> does return, and
  each array holds the first bytes of its field, at most the capacity minus one: a longer
  field is cut, and nothing reports it.
\<close>


theorem parse_click_truncates:
  assumes "cap_ok (button c)" and "cap_ok (x c)" and "cap_ok (y c)" and "cleared c"
  shows "(parse_click jp json c = Some (json', np, ip, c') \<longrightarrow>
           length (button c') = length (button c) \<and> length (c_str (button c')) < length (button c) \<and>
           length (x c') = length (x c) \<and> length (c_str (x c')) < length (x c) \<and>
           length (y c') = length (y c) \<and> length (c_str (y c')) < length (y c)) \<and>
         (span_ok json (jp json ''y'') \<and> span_ok json (jp json ''x'') \<and>
          span_ok json (jp json ''button'') \<and> span_ok json (jp json ''instance'') \<and>
          span_ok json (jp json ''name'') \<longrightarrow>
           (\<exists>buf r. parse_click jp json c
               = Some (buf, sint (fst (jp json ''name'')), sint (fst (jp json ''instance'')), r) \<and>
              copied (button c) (button r) buf (jp json ''button'') \<and>
              copied (x c) (x r) buf (jp json ''x'') \<and>
              copied (y c) (y r) buf (jp json ''y'')))"
proof -
  have A: "parse_click jp json c = Some (json', np, ip, c') \<Longrightarrow>
           length (button c') = length (button c) \<and> length (c_str (button c')) < length (button c) \<and>
           length (x c') = length (x c) \<and> length (c_str (x c')) < length (x c) \<and>
           length (y c') = length (y c) \<and> length (c_str (y c')) < length (y c)"
    using assms by (rule parse_click_bounded)
  have B: "\<exists>buf r. parse_click jp json c
               = Some (buf, sint (fst (jp json ''name'')), sint (fst (jp json ''instance'')), r) \<and>
              copied (button c) (button r) buf (jp json ''button'') \<and>
              copied (x c) (x r) buf (jp json ''x'') \<and>
              copied (y c) (y r) buf (jp json ''y'')"
    if "span_ok json (jp json ''y'')" "span_ok json (jp json ''x'')"
          "span_ok json (jp json ''button'')" "span_ok json (jp json ''instance'')"
          "span_ok json (jp json ''name'')"
    using parse_click_copies [where c = c and json = json and jp = jp, OF assms that]
    by blast
  from A B show ?thesis by blast
qed

theorem parse_click_truncates_witness:
  "cap_ok (button zero_click) \<and> cap_ok (x zero_click) \<and> cap_ok (y zero_click) \<and>
   cleared zero_click \<and>
   span_ok (fread_json long_input) (long_json_parse (fread_json long_input) ''y'') \<and>
   span_ok (fread_json long_input) (long_json_parse (fread_json long_input) ''x'') \<and>
   span_ok (fread_json long_input) (long_json_parse (fread_json long_input) ''button'') \<and>
   span_ok (fread_json long_input) (long_json_parse (fread_json long_input) ''instance'') \<and>
   span_ok (fread_json long_input) (long_json_parse (fread_json long_input) ''name'') \<and>
   (\<exists>json' c'. parse_click long_json_parse (fread_json long_input) zero_click
        = Some (json', 10, 27, c') \<and>
      length (x c') = 5 \<and> length (c_str (x c')) < 5) \<and>
   map_option (\<lambda>r. map c_str [button (snd (snd (snd r))), x (snd (snd (snd r))), y (snd (snd (snd r)))])
     (parse_click long_json_parse (fread_json long_input) zero_click)
     = Some [''1'', ''1234'', ''20'']"
proof -
  have c: "cap_ok (button zero_click)" "cap_ok (x zero_click)" "cap_ok (y zero_click)"
    by (simp_all add: cap_ok_def zero_click_def)
  have z: "cleared zero_click" by code_simp
  have s: "span_ok (fread_json long_input) (long_json_parse (fread_json long_input) ''y'')"
    "span_ok (fread_json long_input) (long_json_parse (fread_json long_input) ''x'')"
    "span_ok (fread_json long_input) (long_json_parse (fread_json long_input) ''button'')"
    "span_ok (fread_json long_input) (long_json_parse (fread_json long_input) ''instance'')"
    "span_ok (fread_json long_input) (long_json_parse (fread_json long_input) ''name'')"
    by code_simp+
  have v: "sint (fst (long_json_parse (fread_json long_input) ''name'')) = 10"
    "sint (fst (long_json_parse (fread_json long_input) ''instance'')) = 27"
    by (simp_all add: long_json_parse_def)
  have l: "length (x zero_click) = 5" by (simp add: zero_click_def)
  have e: "map_option (\<lambda>r. map c_str [button (snd (snd (snd r))), x (snd (snd (snd r))), y (snd (snd (snd r)))])
     (parse_click long_json_parse (fread_json long_input) zero_click)
     = Some [''1'', ''1234'', ''20'']"
    by code_simp
  note t = parse_click_truncates [where c = zero_click and json = "fread_json long_input"
      and jp = long_json_parse, OF c z]
  from t s obtain json' c' where
    p: "parse_click long_json_parse (fread_json long_input) zero_click = Some (json', 10, 27, c')"
    unfolding v by blast
  from t p have "length (x c') = 5" "length (c_str (x c')) < 5"
    unfolding l by blast+
  note p this
  then have "\<exists>json' c'. parse_click long_json_parse (fread_json long_input) zero_click
        = Some (json', 10, 27, c') \<and>
      length (x c') = 5 \<and> length (c_str (x c')) < 5"
    by blast
  with c z s e show ?thesis by blast
qed

section \<open>Properties of \<^verbatim>\<open>handle_click\<close>\<close>

text \<open>
  Notions used to state the properties: a block whose name and instance are those of
  the click, as \<^verbatim>\<open>strcmp\<close> compares them, and the first such block from an index on.
\<close>


definition click_matches :: "string \<Rightarrow> string \<Rightarrow> block \<Rightarrow> bool" where
  "click_matches nm inst b \<longleftrightarrow> c_str (name b) = c_str nm \<and> c_str (instance b) = c_str inst"

definition first_match :: "string \<Rightarrow> string \<Rightarrow> block list \<Rightarrow> nat \<Rightarrow> nat \<Rightarrow> bool" where
  "first_match nm inst ubs k j \<longleftrightarrow>
     k \<le> j \<and> j < length ubs \<and> click_matches nm inst (ubs ! j) \<and>
     (\<forall>m. k \<le> m \<and> m < j \<longrightarrow> \<not> click_matches nm inst (ubs ! m))"

lemma first_match_here:
  "k < length ubs \<Longrightarrow> click_matches nm inst (ubs ! k) \<Longrightarrow> first_match nm inst ubs k j \<longleftrightarrow> j = k"
  unfolding first_match_def by (metis le_neq_implies_less order_refl not_less)

lemma first_match_next:
  "\<not> click_matches nm inst (ubs ! k) \<Longrightarrow>
   first_match nm inst ubs k j \<longleftrightarrow> first_match nm inst ubs (Suc k) j"
  unfolding first_match_def by (metis Suc_leD Suc_leI le_neq_implies_less)

lemma click_loop_upt:
  "k \<le> length ubs \<Longrightarrow> j < length ubs \<Longrightarrow>
   click_loop nm inst c [k..<length ubs] ubs ! j =
     (if first_match nm inst ubs k j then (ubs ! j)\<lparr>click := c\<rparr> else ubs ! j)"
proof (induction "length ubs - k" arbitrary: k)
  case 0
  then have "k = length ubs" by simp
  with "0.prems" have "\<not> first_match nm inst ubs k j" by (simp add: first_match_def)
  with \<open>k = length ubs\<close> show ?case by simp
next
  case (Suc d)
  then have kn: "k < length ubs" by simp
  then have u: "[k..<length ubs] = k # [Suc k..<length ubs]" by (rule upt_conv_Cons)
  show ?case
  proof (cases "click_matches nm inst (ubs ! k)")
    case True
    then have r: "click_loop nm inst c [k..<length ubs] ubs = ubs[k := (ubs ! k)\<lparr>click := c\<rparr>]"
      by (simp add: u click_matches_def Let_def)
    have f: "first_match nm inst ubs k j \<longleftrightarrow> j = k"
      using kn True by (rule first_match_here)
    show ?thesis using kn by (simp add: r f nth_list_update)
  next
    case False
    then have r: "click_loop nm inst c [k..<length ubs] ubs
        = click_loop nm inst c [Suc k..<length ubs] ubs"
      by (auto simp: u click_matches_def Let_def)
    have d: "d = length ubs - Suc k" using Suc.hyps(2) by simp
    have f: "first_match nm inst ubs k j \<longleftrightarrow> first_match nm inst ubs (Suc k) j"
      using False by (rule first_match_next)
    from kn have "Suc k \<le> length ubs" by simp
    from Suc.hyps(1) [OF d this Suc.prems(2)] show ?thesis
      by (simp only: r f)
  qed
qed


lemma handle_click_Some:
  assumes "handle_click ext input s = Some s'"
  shows "\<exists>json' np ip c'.
     parse_click (json_parse ext) (fread_json input)
        \<lparr>button = replicate (sizeof_button ext) (CHR 0x00),
         x = replicate (sizeof_x ext) (CHR 0x00),
         y = replicate (sizeof_y ext) (CHR 0x00)\<rparr> = Some (json', np, ip, c') \<and>
     0 \<le> np \<and> np < int (length json') \<and> 0 \<le> ip \<and> ip < int (length json') \<and>
     s' = (if c_str (drop (nat np) json') \<noteq> [] \<or> c_str (drop (nat ip) json') \<noteq> [] then
             s\<lparr>line := (line s)\<lparr>updated_blocks :=
                click_loop (drop (nat np) json') (drop (nat ip) json') c' [0..<num (line s)]
                  (updated_blocks (line s))\<rparr>\<rparr>
           else s)"
  using assms
  by (auto simp: handle_click_def Let_def split: option.splits prod.splits if_splits)

lemma handle_click_matches:
  assumes "wf_status (line s)" and "handle_click ext input s = Some s'"
  shows "\<exists>json' np ip c'.
     parse_click (json_parse ext) (fread_json input)
        \<lparr>button = replicate (sizeof_button ext) (CHR 0x00),
         x = replicate (sizeof_x ext) (CHR 0x00),
         y = replicate (sizeof_y ext) (CHR 0x00)\<rparr> = Some (json', np, ip, c') \<and>
     length (updated_blocks (line s')) = length (updated_blocks (line s)) \<and>
     (\<forall>j<num (line s).
        updated_blocks (line s') ! j =
          (if (c_str (drop (nat np) json') \<noteq> [] \<or> c_str (drop (nat ip) json') \<noteq> []) \<and>
              click_matches (drop (nat np) json') (drop (nat ip) json') (updated_blocks (line s) ! j) \<and>
              (\<forall>m<j. \<not> click_matches (drop (nat np) json') (drop (nat ip) json')
                        (updated_blocks (line s) ! m))
           then (updated_blocks (line s) ! j)\<lparr>click := c'\<rparr>
           else updated_blocks (line s) ! j))"
proof -
  from handle_click_Some [OF assms(2)] obtain json' np ip c' where
    p: "parse_click (json_parse ext) (fread_json input)
        \<lparr>button = replicate (sizeof_button ext) (CHR 0x00),
         x = replicate (sizeof_x ext) (CHR 0x00),
         y = replicate (sizeof_y ext) (CHR 0x00)\<rparr> = Some (json', np, ip, c')"
    and s': "s' = (if c_str (drop (nat np) json') \<noteq> [] \<or> c_str (drop (nat ip) json') \<noteq> [] then
             s\<lparr>line := (line s)\<lparr>updated_blocks :=
                click_loop (drop (nat np) json') (drop (nat ip) json') c' [0..<num (line s)]
                  (updated_blocks (line s))\<rparr>\<rparr>
           else s)"
    by blast
  define nm where "nm = drop (nat np) json'"
  define inst where "inst = drop (nat ip) json'"
  define ubs where "ubs = updated_blocks (line s)"
  have n0: "num (line s) = length (updated_blocks (line s))"
    using assms(1) by (simp add: wf_status_def)
  have u: "updated_blocks (line s') =
      (if c_str nm \<noteq> [] \<or> c_str inst \<noteq> [] then click_loop nm inst c' [0..<length ubs] ubs else ubs)"
    by (simp add: s' nm_def inst_def ubs_def n0)
  have l: "length (updated_blocks (line s')) = length ubs" by (simp add: u)
  have f: "first_match nm inst ubs 0 j \<longleftrightarrow>
      click_matches nm inst (ubs ! j) \<and> (\<forall>m<j. \<not> click_matches nm inst (ubs ! m))"
    if "j < length ubs" for j
    using that by (simp add: first_match_def)
  have "updated_blocks (line s') ! j =
          (if (c_str nm \<noteq> [] \<or> c_str inst \<noteq> []) \<and> click_matches nm inst (ubs ! j) \<and>
              (\<forall>m<j. \<not> click_matches nm inst (ubs ! m))
           then (ubs ! j)\<lparr>click := c'\<rparr> else ubs ! j)"
    if "j < length ubs" for j
    using click_loop_upt [of 0 ubs j nm inst c'] that f [OF that] by (auto simp: u)
  with p l show ?thesis
    unfolding nm_def inst_def ubs_def n0 by blast
qed


lemma cap_ok_replicate: "1 \<le> n \<Longrightarrow> n < 2 ^ 64 \<Longrightarrow> cap_ok (replicate n (CHR 0x00))"
  by (simp add: cap_ok_def)

lemma handle_click_returns:
  assumes sizes: "1 \<le> sizeof_button ext" "sizeof_button ext < 2 ^ 64"
      "1 \<le> sizeof_x ext" "sizeof_x ext < 2 ^ 64" "1 \<le> sizeof_y ext" "sizeof_y ext < 2 ^ 64"
    and spans: "span_ok (fread_json input) (json_parse ext (fread_json input) ''y'')"
      "span_ok (fread_json input) (json_parse ext (fread_json input) ''x'')"
      "span_ok (fread_json input) (json_parse ext (fread_json input) ''button'')"
      "span_ok (fread_json input) (json_parse ext (fread_json input) ''instance'')"
      "span_ok (fread_json input) (json_parse ext (fread_json input) ''name'')"
  shows "\<exists>s'. handle_click ext input s = Some s'"
proof -
  define c where "c = \<lparr>button = replicate (sizeof_button ext) (CHR 0x00),
         x = replicate (sizeof_x ext) (CHR 0x00),
         y = replicate (sizeof_y ext) (CHR 0x00)\<rparr>"
  have caps: "cap_ok (button c)" "cap_ok (x c)" "cap_ok (y c)"
    using sizes by (simp_all add: c_def cap_ok_replicate)
  have z: "cleared c" by (simp add: c_def cleared_def list_all_iff)
  from parse_click_copies [where c = c and json = "fread_json input" and jp = "json_parse ext",
      OF caps z spans]
  obtain buf r where
    p: "parse_click (json_parse ext) (fread_json input) c
          = Some (buf, sint (fst (json_parse ext (fread_json input) ''name'')),
                  sint (fst (json_parse ext (fread_json input) ''instance'')), r)"
    and l: "length buf = length (fread_json input)"
    by blast
  from spans(5) l have n: "0 \<le> sint (fst (json_parse ext (fread_json input) ''name''))"
    "sint (fst (json_parse ext (fread_json input) ''name'')) < int (length buf)"
    by (simp_all add: span_ok_def)
  from spans(4) l have i: "0 \<le> sint (fst (json_parse ext (fread_json input) ''instance''))"
    "sint (fst (json_parse ext (fread_json input) ''instance'')) < int (length buf)"
    by (simp_all add: span_ok_def)
  show ?thesis
    using p n i by (simp add: handle_click_def Let_def flip: c_def)
qed

text \<open>
  C6: when \<^verbatim>\<open>handle_click\<close> returns, \<^verbatim>\<open>parse_click\<close> has given a name, an instance and a
  click; if the name or the instance is not empty, the first runtime block in index
  order whose name and instance equal them receives the click, in its click field only,
  and every other block is as it was; if no block matches, or if name and instance are
  both empty, every block is as it was. When the sizes of the three arrays are not 0 and
  the spans that \<^verbatim>\<open>json_parse\<close> returns lie inside the buffer, \<^verbatim>\<open>handle_click\<close> returns.
\<close>


theorem handle_click_first_match:
  assumes "wf_status (line s)"
  shows "(handle_click ext input s = Some s' \<longrightarrow>
     (\<exists>json' np ip c'.
       parse_click (json_parse ext) (fread_json input)
          \<lparr>button = replicate (sizeof_button ext) (CHR 0x00),
           x = replicate (sizeof_x ext) (CHR 0x00),
           y = replicate (sizeof_y ext) (CHR 0x00)\<rparr> = Some (json', np, ip, c') \<and>
       length (updated_blocks (line s')) = length (updated_blocks (line s)) \<and>
       (\<forall>j<num (line s).
          updated_blocks (line s') ! j =
            (if (c_str (drop (nat np) json') \<noteq> [] \<or> c_str (drop (nat ip) json') \<noteq> []) \<and>
                click_matches (drop (nat np) json') (drop (nat ip) json') (updated_blocks (line s) ! j) \<and>
                (\<forall>m<j. \<not> click_matches (drop (nat np) json') (drop (nat ip) json')
                          (updated_blocks (line s) ! m))
             then (updated_blocks (line s) ! j)\<lparr>click := c'\<rparr>
             else updated_blocks (line s) ! j)))) \<and>
    (1 \<le> sizeof_button ext \<and> sizeof_button ext < 2 ^ 64 \<and>
     1 \<le> sizeof_x ext \<and> sizeof_x ext < 2 ^ 64 \<and> 1 \<le> sizeof_y ext \<and> sizeof_y ext < 2 ^ 64 \<and>
     span_ok (fread_json input) (json_parse ext (fread_json input) ''y'') \<and>
     span_ok (fread_json input) (json_parse ext (fread_json input) ''x'') \<and>
     span_ok (fread_json input) (json_parse ext (fread_json input) ''button'') \<and>
     span_ok (fread_json input) (json_parse ext (fread_json input) ''instance'') \<and>
     span_ok (fread_json input) (json_parse ext (fread_json input) ''name'')
     \<longrightarrow> (\<exists>r. handle_click ext input s = Some r))"
  using handle_click_matches [OF assms, of ext input s'] handle_click_returns [of ext input s]
  by blast

theorem handle_click_first_match_witness:
  "wf_status (line example_sched) \<and>
   (\<exists>s'. handle_click example_ext example_input example_sched = Some s' \<and>
      length (updated_blocks (line s')) = 4) \<and>
   map_option (\<lambda>s'. map (\<lambda>b. (c_str (button (click b)), c_str (x (click b)), c_str (y (click b))))
       (updated_blocks (line s')))
     (handle_click example_ext example_input example_sched)
     = Some [([], [], []), ([], [], []), (''1'', ''10'', ''20''), ([], [], [])]"
proof -
  have wf: "wf_status (line example_sched)" by code_simp
  have "handle_click example_ext example_input example_sched \<noteq> None" by code_simp
  then obtain s' where r: "handle_click example_ext example_input example_sched = Some s'"
    by blast
  have l: "length (updated_blocks (line example_sched)) = 4" by code_simp
  from handle_click_first_match [OF wf, of example_ext example_input s'] r
  have "length (updated_blocks (line s')) = length (updated_blocks (line example_sched))"
    by blast
  with r l have e: "\<exists>s'. handle_click example_ext example_input example_sched = Some s' \<and>
      length (updated_blocks (line s')) = 4"
    by simp
  have m: "map_option (\<lambda>s'. map (\<lambda>b. (c_str (button (click b)), c_str (x (click b)), c_str (y (click b))))
       (updated_blocks (line s')))
     (handle_click example_ext example_input example_sched)
     = Some [([], [], []), ([], [], []), (''1'', ''10'', ''20''), ([], [], [])]"
    by code_simp
  from wf e m show ?thesis by blast
qed

end
